theory Spec2Isabelle
  imports Complex_Main "HOL-Library.Word" "HOL-Library.Log_Nat" "HOL-Library.Multiset"
begin

section \<open>Strings\<close>

text \<open>
  A JavaScript string is a sequence of UTF-16 code units. \<open>ustr\<close> writes an ASCII
  literal as such a sequence.
\<close>

type_synonym code_unit = "16 word"
type_synonym jsstring = "code_unit list"

definition cu :: "char \<Rightarrow> code_unit" where
  "cu c = of_nat (of_char c)"

definition ustr :: "string \<Rightarrow> jsstring" where
  "ustr s = map cu s"

text \<open>
  The code units that \<open>String.prototype.trim\<close> strips and that \<open>\s\<close> matches in a
  regular expression: ECMAScript's WhiteSpace and LineTerminator.
\<close>

definition is_ws :: "code_unit \<Rightarrow> bool" where
  "is_ws c = (c = 0x0009 \<or> c = 0x000A \<or> c = 0x000B \<or> c = 0x000C \<or> c = 0x000D
     \<or> c = 0x0020 \<or> c = 0x00A0 \<or> c = 0x1680 \<or> (0x2000 \<le> c \<and> c \<le> 0x200A)
     \<or> c = 0x2028 \<or> c = 0x2029 \<or> c = 0x202F \<or> c = 0x205F \<or> c = 0x3000
     \<or> c = 0xFEFF)"

text \<open>\<open>s.trim()\<close>\<close>

definition trim :: "jsstring \<Rightarrow> jsstring" where
  "trim s = rev (dropWhile is_ws (rev (dropWhile is_ws s)))"

text \<open>\<open>s.split('\n')\<close>: the pieces between the line feeds; never the empty array.\<close>

fun split_nl :: "jsstring \<Rightarrow> jsstring list" where
  "split_nl [] = [[]]"
| "split_nl (c # cs) =
     (if c = 0x000A then [] # split_nl cs
      else (case split_nl cs of [] \<Rightarrow> [[c]] | l # ls \<Rightarrow> (c # l) # ls))"

text \<open>\<open>xs.join(sep)\<close>\<close>

fun join :: "jsstring \<Rightarrow> jsstring list \<Rightarrow> jsstring" where
  "join sep [] = []"
| "join sep [x] = x"
| "join sep (x # y # ys) = x @ sep @ join sep (y # ys)"

subsection \<open>The label patterns\<close>

text \<open>
  Under the \<open>i\<close> flag (and no \<open>u\<close> flag) two code units match when their
  canonical forms agree. A code unit outside ASCII is never canonicalised into ASCII, so
  against the ASCII letters and the colon of a label only the two ASCII cases of a letter
  match: it is enough to fold \<open>a..z\<close> onto \<open>A..Z\<close>.
\<close>

definition canonicalize :: "code_unit \<Rightarrow> code_unit" where
  "canonicalize c = (if 0x0061 \<le> c \<and> c \<le> 0x007A then c - 0x0020 else c)"

fun starts_with_ci :: "jsstring \<Rightarrow> jsstring \<Rightarrow> bool" where
  "starts_with_ci [] s = True"
| "starts_with_ci (p # ps) [] = False"
| "starts_with_ci (p # ps) (c # cs) =
     (canonicalize c = canonicalize p \<and> starts_with_ci ps cs)"

text \<open>
  \<open>/^label\s*/i.test(s)\<close>: the pattern is anchored at index 0 and \<open>\s*\<close> also
  matches nothing, so the test asks for the label at the start of \<open>s\<close>.
\<close>

definition label_test :: "string \<Rightarrow> jsstring \<Rightarrow> bool" where
  "label_test label s = starts_with_ci (ustr label) s"

text \<open>
  \<open>s.replace(/^label\s*/i, '')\<close>: the match is the label and the longest run of
  white space after it; without a match the string is returned as it is.
\<close>

definition label_replace :: "string \<Rightarrow> jsstring \<Rightarrow> jsstring" where
  "label_replace label s =
     (if label_test label s then dropWhile is_ws (drop (length label) s) else s)"

section \<open>Numbers\<close>

text \<open>
  A JavaScript \<open>number\<close> is an IEEE 754 binary64 value. A finite one is kept as the
  rational it denotes; the two zeros are identified (they are equal under \<open>===\<close>, are
  printed alike, and a sum that starts from \<open>0\<close> never yields the negative one).
\<close>

datatype number = Finite rat | PosInfinity | NegInfinity | NaN

text \<open>Rounding to the nearest integer, a tie going to the even one.\<close>

definition round_half_even :: "rat \<Rightarrow> int" where
  "round_half_even x =
     (let f = \<lfloor>x\<rfloor>; d = x - of_int f
      in if d < 1 / 2 then f else if 1 / 2 < d then f + 1 else if even f then f else f + 1)"

text \<open>
  The exponent \<open>e\<close> with \<open>2\<^sup>e \<le> x < 2\<^sup>e\<^sup>+\<^sup>1\<close>, for a positive \<open>x\<close>, from the bit lengths of
  its numerator and denominator.
\<close>

definition binade :: "rat \<Rightarrow> int" where
  "binade x =
     (let (a, b) = quotient_of x; k = bitlen a - bitlen b
      in if 2 powi k \<le> x then k else k - 1)"

text \<open>
  The Number value for a rational: the nearest binary64 value, a tie going to the even
  significand. The spacing of the binary64 values around \<open>x\<close> is \<open>2\<^sup>e\<^sup>-\<^sup>5\<^sup>2\<close> (53
  significant bits), with \<open>e\<close> not below \<open>-1022\<close> (the subnormal range); a result that
  reaches \<open>2\<^sup>1\<^sup>0\<^sup>2\<^sup>4\<close> is an infinity.
\<close>

definition round_to_double :: "rat \<Rightarrow> number" where
  "round_to_double x =
     (if x = 0 then Finite 0
      else let e = max (binade \<bar>x\<bar>) (- 1022);
               q = 2 powi (e - 52);
               r = of_int (round_half_even (x / q)) * q
           in if 2 powi 1024 \<le> r then PosInfinity
              else if r \<le> - (2 powi 1024) then NegInfinity
              else Finite r)"

text \<open>The operator \<open>+\<close> on two numbers.\<close>

fun js_add :: "number \<Rightarrow> number \<Rightarrow> number" where
  "js_add NaN y = NaN"
| "js_add x NaN = NaN"
| "js_add PosInfinity NegInfinity = NaN"
| "js_add NegInfinity PosInfinity = NaN"
| "js_add PosInfinity y = PosInfinity"
| "js_add x PosInfinity = PosInfinity"
| "js_add NegInfinity y = NegInfinity"
| "js_add x NegInfinity = NegInfinity"
| "js_add (Finite a) (Finite b) = round_to_double (a + b)"

text \<open>The operator \<open>===\<close> on two numbers: \<open>NaN\<close> equals nothing.\<close>

definition strict_equal :: "number \<Rightarrow> number \<Rightarrow> bool" where
  "strict_equal x y = (x \<noteq> NaN \<and> y \<noteq> NaN \<and> x = y)"

section \<open>Type definitions\<close>

text \<open>\<open>timestamp\<close> is a \<open>Date\<close>: the milliseconds since the epoch.\<close>

record MealEntry =
  id :: number
  name :: jsstring
  calories :: number
  protein :: number
  carbs :: number
  fat :: number
  timestamp :: int

record NutritionData =
  calories :: jsstring
  protein :: jsstring
  carbs :: jsstring
  fat :: jsstring
  tip :: jsstring

section \<open>The parser\<close>

text \<open>The variables of \<open>parseNutritionResult\<close> that the loop updates.\<close>

record parse_state =
  nutritionData :: NutritionData
  tipFound :: bool
  tipLines :: "jsstring list"

definition initial_state :: parse_state where
  "initial_state =
     \<lparr>nutritionData = \<lparr>calories = [], protein = [], carbs = [], fat = [], tip = []\<rparr>,
      tipFound = False, tipLines = []\<rparr>"

text \<open>The body of the \<open>for (const line of lines)\<close> loop.\<close>

definition parse_line :: "parse_state \<Rightarrow> jsstring \<Rightarrow> parse_state" where
  "parse_line st line =
     (let trimmedLine = trim line in
      if label_test ''calories:'' trimmedLine then
        st\<lparr>nutritionData := (nutritionData st)
              \<lparr>calories := trim (label_replace ''calories:'' trimmedLine)\<rparr>\<rparr>
      else if label_test ''protein:'' trimmedLine then
        st\<lparr>nutritionData := (nutritionData st)
              \<lparr>protein := trim (label_replace ''protein:'' trimmedLine)\<rparr>\<rparr>
      else if label_test ''carbs:'' trimmedLine then
        st\<lparr>nutritionData := (nutritionData st)
              \<lparr>carbs := trim (label_replace ''carbs:'' trimmedLine)\<rparr>\<rparr>
      else if label_test ''fat:'' trimmedLine then
        st\<lparr>nutritionData := (nutritionData st)
              \<lparr>fat := trim (label_replace ''fat:'' trimmedLine)\<rparr>\<rparr>
      else if label_test ''tip:'' trimmedLine then
        st\<lparr>tipFound := True,
           nutritionData := (nutritionData st)
              \<lparr>tip := trim (label_replace ''tip:'' trimmedLine)\<rparr>\<rparr>
      else if tipFound st \<and> length trimmedLine > 0 then
        st\<lparr>tipLines := tipLines st @ [trimmedLine]\<rparr>
      else st)"

definition parse_lines :: "parse_state \<Rightarrow> jsstring list \<Rightarrow> parse_state" where
  "parse_lines st lines = foldl parse_line st lines"

definition parseNutritionResult :: "jsstring \<Rightarrow> NutritionData" where
  "parseNutritionResult result =
     (let lines = split_nl result;
          st = parse_lines initial_state lines;
          nd = nutritionData st
      in if length (tipLines st) > 0
         then nd\<lparr>tip := tip nd @ ustr '' '' @ join (ustr '' '') (tipLines st)\<rparr>
         else nd)"

text \<open>
  The lines that the last branch of the loop collects once \<open>tipFound\<close> is set: not
  empty after trimming, and matching none of the five labels.
\<close>

definition continuation_line :: "jsstring \<Rightarrow> bool" where
  "continuation_line t =
     (t \<noteq> [] \<and> \<not> label_test ''calories:'' t \<and> \<not> label_test ''protein:'' t
      \<and> \<not> label_test ''carbs:'' t \<and> \<not> label_test ''fat:'' t \<and> \<not> label_test ''tip:'' t)"

section \<open>The numeric extractor\<close>

definition is_digit :: "code_unit \<Rightarrow> bool" where
  "is_digit c = (0x0030 \<le> c \<and> c \<le> 0x0039)"

text \<open>
  The pattern \<open>(\d+(?:\.\d+)?)\<close> tried at the start of \<open>s\<close>: \<open>\d+\<close> is greedy and takes
  the whole run of digits (at least one); the optional group takes a point and the run
  of digits after it when that run is not empty, and nothing otherwise. The result is the
  matched text.
\<close>

definition match_here :: "jsstring \<Rightarrow> jsstring option" where
  "match_here s =
     (let ds = takeWhile is_digit s; rest = dropWhile is_digit s
      in if ds = [] then None
         else (case rest of
                 [] \<Rightarrow> Some ds
               | c # fs \<Rightarrow>
                   if c = 0x002E \<and> takeWhile is_digit fs \<noteq> []
                   then Some (ds @ c # takeWhile is_digit fs)
                   else Some ds))"

text \<open>
  \<open>str.match(/(\d+(?:\.\d+)?)/)\<close>: the pattern is tried at each index from the left;
  the result is the text of group 1 at the first index where it matches, \<open>None\<close> for
  \<open>null\<close>.
\<close>

fun match_number :: "jsstring \<Rightarrow> jsstring option" where
  "match_number [] = None"
| "match_number (c # cs) =
     (case match_here (c # cs) of Some m \<Rightarrow> Some m | None \<Rightarrow> match_number cs)"

definition digits_value :: "jsstring \<Rightarrow> nat" where
  "digits_value ds = foldl (\<lambda>n c. 10 * n + unat (c - 0x0030)) 0 ds"

text \<open>
  \<open>parseFloat\<close> on the texts that group 1 can match: digits, or digits, a point and
  digits. Such a text has no white space, sign or exponent, so all of it is the decimal
  literal, and the result is the Number value for the literal's mathematical value
  (engines round correctly also beyond 20 significant digits, where the language
  standard would allow them not to).
\<close>

definition parseFloat :: "jsstring \<Rightarrow> number" where
  "parseFloat t =
     (let ip = takeWhile is_digit t;
          fp = (case dropWhile is_digit t of
                  [] \<Rightarrow> []
                | c # fs \<Rightarrow> if c = 0x002E then takeWhile is_digit fs else [])
      in round_to_double (of_nat (digits_value ip) + of_nat (digits_value fp) / 10 ^ length fp))"

definition extractNumericValue :: "jsstring \<Rightarrow> number" where
  "extractNumericValue str =
     (case match_number str of Some m \<Rightarrow> parseFloat m | None \<Rightarrow> Finite 0)"

section \<open>The chart\<close>

text \<open>
  What \<open>NutritionPieChart\<close> returns: the fallback text, or the pie chart over the three
  values of its \<open>data\<close> array.
\<close>

datatype chart = NoMacroData | Pie number number number

definition NutritionPieChart :: "NutritionData \<Rightarrow> chart" where
  "NutritionPieChart nd =
     (let proteinValue = extractNumericValue (protein nd);
          carbsValue = extractNumericValue (carbs nd);
          fatValue = extractNumericValue (fat nd)
      in if strict_equal proteinValue (Finite 0) \<and> strict_equal carbsValue (Finite 0)
            \<and> strict_equal fatValue (Finite 0)
         then NoMacroData
         else Pie proteinValue carbsValue fatValue)"

section \<open>The daily totals\<close>

text \<open>
  \<open>saveMealFromAnalysis\<close>, as a function of the state it reads and updates: the
  analysis text \<open>result\<close> and the list \<open>todaysMeals\<close>. The readings of the clock by
  \<open>Date.now()\<close> and \<open>new Date()\<close> are passed in. Nothing is saved while \<open>result\<close> is
  the empty string.
\<close>

definition saveMealFromAnalysis ::
    "int \<Rightarrow> int \<Rightarrow> jsstring \<Rightarrow> MealEntry list \<Rightarrow> MealEntry list" where
  "saveMealFromAnalysis now date result todaysMeals =
     (if result = [] then todaysMeals
      else let nd = parseNutritionResult result;
               meal = \<lparr>id = Finite (of_int now), name = ustr ''AI Analyzed Meal'',
                 calories = extractNumericValue (NutritionData.calories nd),
                 protein = extractNumericValue (NutritionData.protein nd),
                 carbs = extractNumericValue (NutritionData.carbs nd),
                 fat = extractNumericValue (NutritionData.fat nd),
                 timestamp = date\<rparr>
           in todaysMeals @ [meal])"

text \<open>
  The four \<open>todaysMeals.reduce((sum, meal) => sum + meal.field, 0)\<close> of the totals
  panel.
\<close>

definition total_calories :: "MealEntry list \<Rightarrow> number" where
  "total_calories todaysMeals =
     foldl (\<lambda>sum meal. js_add sum (MealEntry.calories meal)) (Finite 0) todaysMeals"

definition total_protein :: "MealEntry list \<Rightarrow> number" where
  "total_protein todaysMeals =
     foldl (\<lambda>sum meal. js_add sum (MealEntry.protein meal)) (Finite 0) todaysMeals"

definition total_carbs :: "MealEntry list \<Rightarrow> number" where
  "total_carbs todaysMeals =
     foldl (\<lambda>sum meal. js_add sum (MealEntry.carbs meal)) (Finite 0) todaysMeals"

definition total_fat :: "MealEntry list \<Rightarrow> number" where
  "total_fat todaysMeals =
     foldl (\<lambda>sum meal. js_add sum (MealEntry.fat meal)) (Finite 0) todaysMeals"


section \<open>Properties of the parser\<close>


lemma starts_with_ci_nth:
  "starts_with_ci ps s \<Longrightarrow> n < length ps \<Longrightarrow> n < length s \<and> canonicalize (s ! n) = canonicalize (ps ! n)"
proof (induction ps s arbitrary: n rule: starts_with_ci.induct)
  case (3 p ps c cs)
  then show ?case by (cases n) auto
qed simp_all

lemma label_test_nth:
  "label_test label s \<Longrightarrow> n < length label \<Longrightarrow> canonicalize (s ! n) = canonicalize (cu (label ! n))"
  using starts_with_ci_nth [of "ustr label" s n] by (simp add: label_test_def ustr_def)

lemma canon_lits:
  "canonicalize (cu CHR ''c'') = 0x43" "canonicalize (cu CHR ''p'') = 0x50"
  "canonicalize (cu CHR ''f'') = 0x46" "canonicalize (cu CHR ''t'') = 0x54"
  "canonicalize (cu CHR ''l'') = 0x4C" "canonicalize (cu CHR ''r'') = 0x52"
  by (simp_all add: canonicalize_def cu_def)

lemma label_head:
  "label_test ''calories:'' s \<Longrightarrow> canonicalize (s ! 0) = 0x43 \<and> canonicalize (s ! 2) = 0x4C"
  "label_test ''protein:'' s \<Longrightarrow> canonicalize (s ! 0) = 0x50"
  "label_test ''carbs:'' s \<Longrightarrow> canonicalize (s ! 0) = 0x43 \<and> canonicalize (s ! 2) = 0x52"
  "label_test ''fat:'' s \<Longrightarrow> canonicalize (s ! 0) = 0x46"
  "label_test ''tip:'' s \<Longrightarrow> canonicalize (s ! 0) = 0x54"
  using label_test_nth [of "''calories:''" s 0] label_test_nth [of "''calories:''" s 2]
    label_test_nth [of "''protein:''" s 0]
    label_test_nth [of "''carbs:''" s 0] label_test_nth [of "''carbs:''" s 2]
    label_test_nth [of "''fat:''" s 0] label_test_nth [of "''tip:''" s 0]
  by (simp_all add: canon_lits)

lemma label_exclusive:
  "label_test ''calories:'' s \<Longrightarrow> \<not> label_test ''protein:'' s \<and> \<not> label_test ''carbs:'' s
     \<and> \<not> label_test ''fat:'' s \<and> \<not> label_test ''tip:'' s"
  "label_test ''protein:'' s \<Longrightarrow> \<not> label_test ''calories:'' s \<and> \<not> label_test ''carbs:'' s
     \<and> \<not> label_test ''fat:'' s \<and> \<not> label_test ''tip:'' s"
  "label_test ''carbs:'' s \<Longrightarrow> \<not> label_test ''calories:'' s \<and> \<not> label_test ''protein:'' s
     \<and> \<not> label_test ''fat:'' s \<and> \<not> label_test ''tip:'' s"
  "label_test ''fat:'' s \<Longrightarrow> \<not> label_test ''calories:'' s \<and> \<not> label_test ''protein:'' s
     \<and> \<not> label_test ''carbs:'' s \<and> \<not> label_test ''tip:'' s"
  "label_test ''tip:'' s \<Longrightarrow> \<not> label_test ''calories:'' s \<and> \<not> label_test ''protein:'' s
     \<and> \<not> label_test ''carbs:'' s \<and> \<not> label_test ''fat:'' s"
  using label_head [of s] by auto



lemma parse_line_calories:
  "calories (nutritionData (parse_line st l)) =
     (if label_test ''calories:'' (trim l) then trim (label_replace ''calories:'' (trim l))
      else calories (nutritionData st))"
  by (simp add: parse_line_def Let_def)

lemma parse_line_protein:
  "protein (nutritionData (parse_line st l)) =
     (if label_test ''protein:'' (trim l) then trim (label_replace ''protein:'' (trim l))
      else protein (nutritionData st))"
  using label_exclusive(2) [of "trim l"] by (simp add: parse_line_def Let_def)

lemma parse_line_carbs:
  "carbs (nutritionData (parse_line st l)) =
     (if label_test ''carbs:'' (trim l) then trim (label_replace ''carbs:'' (trim l))
      else carbs (nutritionData st))"
  using label_exclusive(3) [of "trim l"] by (simp add: parse_line_def Let_def)

lemma parse_line_fat:
  "fat (nutritionData (parse_line st l)) =
     (if label_test ''fat:'' (trim l) then trim (label_replace ''fat:'' (trim l))
      else fat (nutritionData st))"
  using label_exclusive(4) [of "trim l"] by (simp add: parse_line_def Let_def)

lemma parse_line_tip:
  "tip (nutritionData (parse_line st l)) =
     (if label_test ''tip:'' (trim l) then trim (label_replace ''tip:'' (trim l))
      else tip (nutritionData st))"
  using label_exclusive(5) [of "trim l"] by (simp add: parse_line_def Let_def)

lemma parse_line_tipFound:
  "tipFound (parse_line st l) = (tipFound st \<or> label_test ''tip:'' (trim l))"
  using label_exclusive(5) [of "trim l"] by (auto simp add: parse_line_def Let_def)

lemma parse_line_tipLines:
  "tipLines (parse_line st l) =
     tipLines st @ (if tipFound st \<and> continuation_line (trim l) then [trim l] else [])"
  by (auto simp add: parse_line_def Let_def continuation_line_def)

lemma foldl_last_write:
  assumes "\<And>st l. g (step st l) = (if P (f l) then v (f l) else g st)"
  shows "g (foldl step st ls) =
           (if filter P (map f ls) = [] then g st else v (last (filter P (map f ls))))"
proof (induction ls rule: rev_induct)
  case Nil
  show ?case by simp
next
  case (snoc l ls)
  show ?case by (simp add: assms snoc)
qed

lemma parse_lines_calories:
  "calories (nutritionData (parse_lines st ls)) =
     (if filter (label_test ''calories:'') (map trim ls) = [] then calories (nutritionData st)
      else trim (label_replace ''calories:''
             (last (filter (label_test ''calories:'') (map trim ls)))))"
  unfolding parse_lines_def
  by (rule foldl_last_write [where g = "\<lambda>st. calories (nutritionData st)"
        and v = "\<lambda>t. trim (label_replace ''calories:'' t)"]) (rule parse_line_calories)

lemma parse_lines_protein:
  "protein (nutritionData (parse_lines st ls)) =
     (if filter (label_test ''protein:'') (map trim ls) = [] then protein (nutritionData st)
      else trim (label_replace ''protein:''
             (last (filter (label_test ''protein:'') (map trim ls)))))"
  unfolding parse_lines_def
  by (rule foldl_last_write [where g = "\<lambda>st. protein (nutritionData st)"
        and v = "\<lambda>t. trim (label_replace ''protein:'' t)"]) (rule parse_line_protein)

lemma parse_lines_carbs:
  "carbs (nutritionData (parse_lines st ls)) =
     (if filter (label_test ''carbs:'') (map trim ls) = [] then carbs (nutritionData st)
      else trim (label_replace ''carbs:''
             (last (filter (label_test ''carbs:'') (map trim ls)))))"
  unfolding parse_lines_def
  by (rule foldl_last_write [where g = "\<lambda>st. carbs (nutritionData st)"
        and v = "\<lambda>t. trim (label_replace ''carbs:'' t)"]) (rule parse_line_carbs)

lemma parse_lines_fat:
  "fat (nutritionData (parse_lines st ls)) =
     (if filter (label_test ''fat:'') (map trim ls) = [] then fat (nutritionData st)
      else trim (label_replace ''fat:''
             (last (filter (label_test ''fat:'') (map trim ls)))))"
  unfolding parse_lines_def
  by (rule foldl_last_write [where g = "\<lambda>st. fat (nutritionData st)"
        and v = "\<lambda>t. trim (label_replace ''fat:'' t)"]) (rule parse_line_fat)

lemma parse_lines_tip:
  "tip (nutritionData (parse_lines st ls)) =
     (if filter (label_test ''tip:'') (map trim ls) = [] then tip (nutritionData st)
      else trim (label_replace ''tip:''
             (last (filter (label_test ''tip:'') (map trim ls)))))"
  unfolding parse_lines_def
  by (rule foldl_last_write [where g = "\<lambda>st. tip (nutritionData st)"
        and v = "\<lambda>t. trim (label_replace ''tip:'' t)"]) (rule parse_line_tip)

lemma parse_lines_Cons: "parse_lines st (l # ls) = parse_lines (parse_line st l) ls"
  by (simp add: parse_lines_def)

lemma parse_lines_append: "parse_lines st (xs @ ys) = parse_lines (parse_lines st xs) ys"
  by (simp add: parse_lines_def)

lemma parse_lines_tip_not_found:
  "\<not> tipFound st \<Longrightarrow> \<forall>p \<in> set ls. \<not> label_test ''tip:'' (trim p) \<Longrightarrow>
     \<not> tipFound (parse_lines st ls) \<and> tipLines (parse_lines st ls) = tipLines st"
proof (induction ls arbitrary: st)
  case Nil
  then show ?case by (simp add: parse_lines_def)
next
  case (Cons l ls)
  have "\<not> tipFound (parse_line st l)" "tipLines (parse_line st l) = tipLines st"
    using Cons.prems by (simp_all add: parse_line_tipFound parse_line_tipLines)
  with Cons.IH [of "parse_line st l"] Cons.prems(2) show ?case
    by (simp add: parse_lines_Cons)
qed

lemma parse_lines_tip_found:
  "tipFound st \<Longrightarrow>
     tipFound (parse_lines st ls) \<and>
     tipLines (parse_lines st ls) = tipLines st @ filter continuation_line (map trim ls)"
proof (induction ls arbitrary: st)
  case Nil
  then show ?case by (simp add: parse_lines_def)
next
  case (Cons l ls)
  have "tipFound (parse_line st l)"
    using Cons.prems by (simp add: parse_line_tipFound)
  from Cons.IH [OF this] Cons.prems show ?case
    by (simp add: parse_lines_Cons parse_line_tipLines)
qed

lemma tipLines_split:
  assumes "\<forall>p \<in> set pre. \<not> label_test ''tip:'' (trim p)" and "label_test ''tip:'' (trim l)"
  shows "tipLines (parse_lines initial_state (pre @ l # post)) =
           filter continuation_line (map trim post)"
proof -
  let ?a = "parse_lines initial_state pre"
  have a: "\<not> tipFound ?a \<and> tipLines ?a = []"
    using parse_lines_tip_not_found [of initial_state pre] assms(1)
    by (simp add: initial_state_def)
  have b: "tipFound (parse_line ?a l)" "tipLines (parse_line ?a l) = []"
    using a assms(2) by (simp_all add: parse_line_tipFound parse_line_tipLines)
  show ?thesis
    using parse_lines_tip_found [OF b(1), of post] b(2)
    by (simp add: parse_lines_append parse_lines_Cons)
qed

lemma join_concat:
  "xs \<noteq> [] \<Longrightarrow> sep @ join sep xs = concat (map (\<lambda>x. sep @ x) xs)"
  by (induction sep xs rule: join.induct) simp_all

lemma parse_tip_eq:
  "tip (parseNutritionResult s) =
     tip (nutritionData (parse_lines initial_state (split_nl s)))
     @ concat (map (\<lambda>c. ustr '' '' @ c) (tipLines (parse_lines initial_state (split_nl s))))"
  using join_concat [of "tipLines (parse_lines initial_state (split_nl s))" "ustr '' ''"]
  by (simp add: parseNutritionResult_def Let_def)

lemma parse_field_eq:
  "calories (parseNutritionResult s) = calories (nutritionData (parse_lines initial_state (split_nl s)))"
  "protein (parseNutritionResult s) = protein (nutritionData (parse_lines initial_state (split_nl s)))"
  "carbs (parseNutritionResult s) = carbs (nutritionData (parse_lines initial_state (split_nl s)))"
  "fat (parseNutritionResult s) = fat (nutritionData (parse_lines initial_state (split_nl s)))"
  by (simp_all add: parseNutritionResult_def Let_def)


lemmas parser_eval =
  parseNutritionResult_def parse_lines_def parse_line_def initial_state_def label_test_def
  label_replace_def trim_def ustr_def cu_def is_ws_def canonicalize_def Let_def
  continuation_line_def

lemma starts_with_ci_take:
  "starts_with_ci ps s \<longleftrightarrow> map canonicalize (take (length ps) s) = map canonicalize ps"
  by (induction ps s rule: starts_with_ci.induct) auto

lemma filter_trim_empty:
  "(\<forall>l \<in> set ls. \<not> P (trim l)) \<Longrightarrow> filter P (map trim ls) = []"
  by (simp add: filter_empty_conv)

lemma tip_unmatched:
  assumes "\<forall>l \<in> set (split_nl s). \<not> label_test ''tip:'' (trim l)"
  shows "tip (parseNutritionResult s) = []"
proof -
  have "tipLines (parse_lines initial_state (split_nl s)) = []"
    using parse_lines_tip_not_found [of initial_state "split_nl s"] assms
    by (simp add: initial_state_def)
  moreover have "tip (nutritionData (parse_lines initial_state (split_nl s))) = []"
    using filter_trim_empty [OF assms]
    by (simp add: parse_lines_tip) (simp add: initial_state_def)
  ultimately show ?thesis by (simp add: parse_tip_eq)
qed

lemmas string_eval =
  label_test_def label_replace_def trim_def ustr_def cu_def is_ws_def canonicalize_def

lemma tip_split:
  assumes "split_nl s = pre @ l # post"
    and "\<forall>p \<in> set pre. \<not> label_test ''tip:'' (trim p)"
    and "label_test ''tip:'' (trim l)"
  shows "tip (parseNutritionResult s) =
           trim (label_replace ''tip:''
             (last (filter (label_test ''tip:'') (map trim (l # post)))))
           @ concat (map (\<lambda>c. ustr '' '' @ c) (filter continuation_line (map trim post)))"
proof -
  have "filter (label_test ''tip:'') (map trim pre) = []"
    using assms(2) by (rule filter_trim_empty)
  then have "filter (label_test ''tip:'') (map trim (split_nl s)) =
      filter (label_test ''tip:'') (map trim (l # post))"
    by (simp add: assms(1))
  moreover have "filter (label_test ''tip:'') (map trim (l # post)) \<noteq> []"
    using assms(3) by simp
  ultimately have "tip (nutritionData (parse_lines initial_state (split_nl s))) =
      trim (label_replace ''tip:'' (last (filter (label_test ''tip:'') (map trim (l # post)))))"
    by (simp only: parse_lines_tip if_False)
  moreover have "tipLines (parse_lines initial_state (split_nl s)) =
      filter continuation_line (map trim post)"
    using tipLines_split [OF assms(2,3)] by (simp add: assms(1))
  ultimately show ?thesis
    by (simp only: parse_tip_eq)
qed

lemma tip_after_first:
  assumes "filter (label_test ''tip:'') (map trim (split_nl s)) \<noteq> []"
  shows "tip (parseNutritionResult s) =
           trim (label_replace ''tip:''
             (last (filter (label_test ''tip:'') (map trim (split_nl s)))))
           @ concat (map (\<lambda>c. ustr '' '' @ c)
               (filter continuation_line
                 (tl (dropWhile (\<lambda>t. \<not> label_test ''tip:'' t) (map trim (split_nl s))))))"
proof -
  let ?P = "\<lambda>l. \<not> label_test ''tip:'' (trim l)"
  let ?ls = "split_nl s"
  define pre where "pre = takeWhile ?P ?ls"
  have "\<exists>l \<in> set ?ls. label_test ''tip:'' (trim l)"
    using assms by (auto simp add: filter_empty_conv)
  then have "dropWhile ?P ?ls \<noteq> []" by auto
  then obtain l post where d: "dropWhile ?P ?ls = l # post"
    by (cases "dropWhile ?P ?ls") auto
  have l: "label_test ''tip:'' (trim l)"
    using hd_dropWhile [of ?P ?ls] d by simp
  have ls: "?ls = pre @ l # post"
    using takeWhile_dropWhile_id [of ?P ?ls] by (simp only: pre_def d)
  have pre: "\<forall>p \<in> set pre. \<not> label_test ''tip:'' (trim p)"
    unfolding pre_def by (auto dest: set_takeWhileD)
  have "filter (label_test ''tip:'') (map trim pre) = []"
    using pre by (rule filter_trim_empty)
  then have f: "filter (label_test ''tip:'') (map trim ?ls) =
      filter (label_test ''tip:'') (map trim (l # post))"
    by (simp add: ls)
  have "dropWhile (\<lambda>t. \<not> label_test ''tip:'' t) (map trim ?ls) = map trim (dropWhile ?P ?ls)"
    by (simp add: dropWhile_map o_def)
  then have t: "tl (dropWhile (\<lambda>t. \<not> label_test ''tip:'' t) (map trim ?ls)) = map trim post"
    by (simp add: d)
  show ?thesis
    unfolding f t using ls pre l by (rule tip_split)
qed

lemma label_test_take:
  "label_test label s \<longleftrightarrow>
     map canonicalize (take (length label) s) = map canonicalize (ustr label)"
  using starts_with_ci_take [of "ustr label" s] by (simp add: label_test_def ustr_def)

lemma hd_trim_not_ws: "trim s \<noteq> [] \<Longrightarrow> \<not> is_ws (hd (trim s))"
proof -
  assume ne: "trim s \<noteq> []"
  let ?d = "dropWhile is_ws s"
  have "rev (takeWhile is_ws (rev ?d) @ dropWhile is_ws (rev ?d)) = ?d"
    by (simp only: takeWhile_dropWhile_id rev_rev_ident)
  then have "?d = trim s @ rev (takeWhile is_ws (rev ?d))"
    by (simp only: rev_append trim_def)
  then have "hd ?d = hd (trim s)" using ne by (metis hd_append2)
  moreover have "?d \<noteq> []"
  proof
    assume e: "?d = []"
    have "trim s = []" unfolding trim_def e by simp
    with ne show False by simp
  qed
  ultimately show ?thesis using hd_dropWhile [of is_ws s] by simp
qed

lemma hd_join: "xs \<noteq> [] \<Longrightarrow> hd xs \<noteq> [] \<Longrightarrow> hd (join sep xs) = hd (hd xs)"
  by (induction sep xs rule: join.induct) simp_all

subsection \<open>Totality and defaults\<close>

text \<open>
  Claim C1. \<open>parseNutritionResult\<close> is a total function without an error branch: none
  of \<open>split\<close>, \<open>trim\<close>, \<open>test\<close>, \<open>replace\<close>, \<open>push\<close> and \<open>join\<close> throws on
  a string. For every input it returns a record of the five string fields, and a field
  whose label pattern matches no trimmed line of the input is the empty string.
\<close>

theorem parseNutritionResult_defaults:
  "(\<exists>c p b f t. parseNutritionResult s =
       \<lparr>calories = c, protein = p, carbs = b, fat = f, tip = t\<rparr>)
   \<and> ((\<forall>l \<in> set (split_nl s). \<not> label_test ''calories:'' (trim l)) \<longrightarrow>
        calories (parseNutritionResult s) = [])
   \<and> ((\<forall>l \<in> set (split_nl s). \<not> label_test ''protein:'' (trim l)) \<longrightarrow>
        protein (parseNutritionResult s) = [])
   \<and> ((\<forall>l \<in> set (split_nl s). \<not> label_test ''carbs:'' (trim l)) \<longrightarrow>
        carbs (parseNutritionResult s) = [])
   \<and> ((\<forall>l \<in> set (split_nl s). \<not> label_test ''fat:'' (trim l)) \<longrightarrow>
        fat (parseNutritionResult s) = [])
   \<and> ((\<forall>l \<in> set (split_nl s). \<not> label_test ''tip:'' (trim l)) \<longrightarrow>
        tip (parseNutritionResult s) = [])"
proof -
  have shape: "\<exists>c p b f t. parseNutritionResult s =
       \<lparr>calories = c, protein = p, carbs = b, fat = f, tip = t\<rparr>"
    by (cases "parseNutritionResult s") blast
  have c: "calories (parseNutritionResult s) = []"
    if "\<forall>l \<in> set (split_nl s). \<not> label_test ''calories:'' (trim l)"
    using filter_trim_empty [OF that]
    by (simp add: parse_field_eq parse_lines_calories) (simp add: initial_state_def)
  have p: "protein (parseNutritionResult s) = []"
    if "\<forall>l \<in> set (split_nl s). \<not> label_test ''protein:'' (trim l)"
    using filter_trim_empty [OF that]
    by (simp add: parse_field_eq parse_lines_protein) (simp add: initial_state_def)
  have b: "carbs (parseNutritionResult s) = []"
    if "\<forall>l \<in> set (split_nl s). \<not> label_test ''carbs:'' (trim l)"
    using filter_trim_empty [OF that]
    by (simp add: parse_field_eq parse_lines_carbs) (simp add: initial_state_def)
  have f: "fat (parseNutritionResult s) = []"
    if "\<forall>l \<in> set (split_nl s). \<not> label_test ''fat:'' (trim l)"
    using filter_trim_empty [OF that]
    by (simp add: parse_field_eq parse_lines_fat) (simp add: initial_state_def)
  from shape c p b f tip_unmatched [of s] show ?thesis by blast
qed

theorem parseNutritionResult_defaults_witness:
  "list_all (\<lambda>l. \<not> label_test ''calories:'' (trim l) \<and> \<not> label_test ''protein:'' (trim l)
       \<and> \<not> label_test ''carbs:'' (trim l) \<and> \<not> label_test ''fat:'' (trim l)
       \<and> \<not> label_test ''tip:'' (trim l))
     (split_nl (ustr ''A bowl of soup.\<newline>No figures given.''))
   \<and> parseNutritionResult (ustr ''A bowl of soup.\<newline>No figures given.'') =
       \<lparr>calories = [], protein = [], carbs = [], fat = [], tip = []\<rparr>"
proof -
  let ?s = "ustr ''A bowl of soup.\<newline>No figures given.''"
  have h: "\<forall>l \<in> set (split_nl ?s).
       \<not> label_test ''calories:'' (trim l) \<and> \<not> label_test ''protein:'' (trim l)
       \<and> \<not> label_test ''carbs:'' (trim l) \<and> \<not> label_test ''fat:'' (trim l)
       \<and> \<not> label_test ''tip:'' (trim l)"
    by (simp add: parser_eval)
  from h parseNutritionResult_defaults [of ?s] show ?thesis
    by (auto simp add: list_all_iff)
qed

text \<open>
  Claim C2. The five-line example of the specification parses into its five values.
\<close>

theorem parseNutritionResult_example:
  "parseNutritionResult
     (ustr ''Calories: 720 kcal\<newline>Protein: 32g\<newline>Carbs: 65g\<newline>Fat: 28g\<newline>Tip: Add veggies.'')
   = \<lparr>calories = ustr ''720 kcal'', protein = ustr ''32g'', carbs = ustr ''65g'',
      fat = ustr ''28g'', tip = ustr ''Add veggies.''\<rparr>"
  by (simp add: parser_eval)

subsection \<open>The tip and its continuation lines\<close>

text \<open>
  Claim C3. Take an input in which some line matches \<open>tip:\<close>, and let \<open>l\<close> be the
  first such line, \<open>pre\<close> the lines before it and \<open>post\<close> the lines after it. The
  resulting tip is the remainder of the last \<open>tip:\<close> line, followed by every later
  line that is not empty after trimming and matches none of the five labels, each
  preceded by one space, in the order of the input.
\<close>

theorem tip_continuation:
  assumes "split_nl s = pre @ l # post"
    and "\<forall>p \<in> set pre. \<not> label_test ''tip:'' (trim p)"
    and "label_test ''tip:'' (trim l)"
  shows "tip (parseNutritionResult s) =
           trim (label_replace ''tip:''
             (last (filter (label_test ''tip:'') (map trim (l # post)))))
           @ concat (map (\<lambda>c. ustr '' '' @ c) (filter continuation_line (map trim post)))"
  using assms by (rule tip_split)

theorem tip_continuation_witness:
  "split_nl (ustr ''Tip: Eat more fiber.\<newline>Also drink water.'') =
     [] @ ustr ''Tip: Eat more fiber.'' # [ustr ''Also drink water.'']
   \<and> label_test ''tip:'' (trim (ustr ''Tip: Eat more fiber.''))
   \<and> tip (parseNutritionResult (ustr ''Tip: Eat more fiber.\<newline>Also drink water.'')) =
       ustr ''Eat more fiber. Also drink water.''"
proof -
  have a: "split_nl (ustr ''Tip: Eat more fiber.\<newline>Also drink water.'') =
     [] @ ustr ''Tip: Eat more fiber.'' # [ustr ''Also drink water.'']"
    by (simp add: parser_eval)
  have b: "\<forall>p \<in> set []. \<not> label_test ''tip:'' (trim p)"
    by simp
  have c: "label_test ''tip:'' (trim (ustr ''Tip: Eat more fiber.''))"
    by (simp add: parser_eval)
  show ?thesis
    using a c tip_continuation [OF a b c] by (simp add: parser_eval)
qed

text \<open>
  Claim C4, as stated, fails: on \<open>"Tip: A\nX\nTip: B"\<close> the result is not \<open>"B"\<close>. The
  second \<open>tip:\<close> match overwrites the stored remainder \<open>"A"\<close>, but the continuation
  line \<open>X\<close> sits in \<open>tipLines\<close>, which no branch of the loop resets, and is appended
  after the loop.
\<close>

theorem tip_overwrite_counterexample:
  "tip (parseNutritionResult (ustr ''Tip: A\<newline>X\<newline>Tip: B'')) \<noteq> ustr ''B''"
  by (simp add: parser_eval)

text \<open>
  Claim C4, amended. When a label recurs, the value stored for its field is the one of
  the last matching line. For the four nutrient fields this is the result. For the tip
  the result is that value followed by every continuation line after the first
  \<open>tip:\<close> line, each preceded by one space, in the order of the input: a later
  \<open>tip:\<close> match does not discard them. \<open>"Tip: A\nX\nTip: B"\<close> gives \<open>"B X"\<close>.
\<close>

theorem last_write_wins:
  "(filter (label_test ''calories:'') (map trim (split_nl s)) \<noteq> [] \<longrightarrow>
      calories (parseNutritionResult s) =
        trim (label_replace ''calories:''
          (last (filter (label_test ''calories:'') (map trim (split_nl s))))))
   \<and> (filter (label_test ''protein:'') (map trim (split_nl s)) \<noteq> [] \<longrightarrow>
      protein (parseNutritionResult s) =
        trim (label_replace ''protein:''
          (last (filter (label_test ''protein:'') (map trim (split_nl s))))))
   \<and> (filter (label_test ''carbs:'') (map trim (split_nl s)) \<noteq> [] \<longrightarrow>
      carbs (parseNutritionResult s) =
        trim (label_replace ''carbs:''
          (last (filter (label_test ''carbs:'') (map trim (split_nl s))))))
   \<and> (filter (label_test ''fat:'') (map trim (split_nl s)) \<noteq> [] \<longrightarrow>
      fat (parseNutritionResult s) =
        trim (label_replace ''fat:''
          (last (filter (label_test ''fat:'') (map trim (split_nl s))))))
   \<and> (filter (label_test ''tip:'') (map trim (split_nl s)) \<noteq> [] \<longrightarrow>
      tip (parseNutritionResult s) =
        trim (label_replace ''tip:''
          (last (filter (label_test ''tip:'') (map trim (split_nl s)))))
        @ concat (map (\<lambda>c. ustr '' '' @ c)
            (filter continuation_line
              (tl (dropWhile (\<lambda>t. \<not> label_test ''tip:'' t) (map trim (split_nl s)))))))
   \<and> tip (parseNutritionResult (ustr ''Tip: A\<newline>X\<newline>Tip: B'')) = ustr ''B X''"
proof -
  have ex: "tip (parseNutritionResult (ustr ''Tip: A\<newline>X\<newline>Tip: B'')) = ustr ''B X''"
    by (simp add: parser_eval)
  have c: "(filter (label_test ''calories:'') (map trim (split_nl s)) \<noteq> [] \<longrightarrow>
      calories (parseNutritionResult s) =
        trim (label_replace ''calories:''
          (last (filter (label_test ''calories:'') (map trim (split_nl s))))))"
    by (simp add: parse_field_eq parse_lines_calories)
  have p: "(filter (label_test ''protein:'') (map trim (split_nl s)) \<noteq> [] \<longrightarrow>
      protein (parseNutritionResult s) =
        trim (label_replace ''protein:''
          (last (filter (label_test ''protein:'') (map trim (split_nl s))))))"
    by (simp add: parse_field_eq parse_lines_protein)
  have b: "(filter (label_test ''carbs:'') (map trim (split_nl s)) \<noteq> [] \<longrightarrow>
      carbs (parseNutritionResult s) =
        trim (label_replace ''carbs:''
          (last (filter (label_test ''carbs:'') (map trim (split_nl s))))))"
    by (simp add: parse_field_eq parse_lines_carbs)
  have f: "(filter (label_test ''fat:'') (map trim (split_nl s)) \<noteq> [] \<longrightarrow>
      fat (parseNutritionResult s) =
        trim (label_replace ''fat:''
          (last (filter (label_test ''fat:'') (map trim (split_nl s))))))"
    by (simp add: parse_field_eq parse_lines_fat)
  have t: "(filter (label_test ''tip:'') (map trim (split_nl s)) \<noteq> [] \<longrightarrow>
      tip (parseNutritionResult s) =
        trim (label_replace ''tip:''
          (last (filter (label_test ''tip:'') (map trim (split_nl s)))))
        @ concat (map (\<lambda>c. ustr '' '' @ c)
            (filter continuation_line
              (tl (dropWhile (\<lambda>t. \<not> label_test ''tip:'' t) (map trim (split_nl s)))))))"
    using tip_after_first [of s] by blast
  show ?thesis
    by (intro conjI) (fact c p b f t ex)+
qed

theorem last_write_wins_witness:
  "filter (label_test ''calories:'') (map trim (split_nl
     (ustr ''Calories: 1\<newline>calories: 2\<newline>Protein: 3\<newline>PROTEIN: 4\<newline>Carbs: 5\<newline>Carbs: 6\<newline>Fat: 7\<newline>fat: 8\<newline>Tip: A\<newline>X\<newline>Y\<newline>Tip: B''))) \<noteq> []
   \<and> filter (label_test ''tip:'') (map trim (split_nl
     (ustr ''Calories: 1\<newline>calories: 2\<newline>Protein: 3\<newline>PROTEIN: 4\<newline>Carbs: 5\<newline>Carbs: 6\<newline>Fat: 7\<newline>fat: 8\<newline>Tip: A\<newline>X\<newline>Y\<newline>Tip: B''))) \<noteq> []
   \<and> calories (parseNutritionResult
     (ustr ''Calories: 1\<newline>calories: 2\<newline>Protein: 3\<newline>PROTEIN: 4\<newline>Carbs: 5\<newline>Carbs: 6\<newline>Fat: 7\<newline>fat: 8\<newline>Tip: A\<newline>X\<newline>Y\<newline>Tip: B'')) = ustr ''2''
   \<and> protein (parseNutritionResult
     (ustr ''Calories: 1\<newline>calories: 2\<newline>Protein: 3\<newline>PROTEIN: 4\<newline>Carbs: 5\<newline>Carbs: 6\<newline>Fat: 7\<newline>fat: 8\<newline>Tip: A\<newline>X\<newline>Y\<newline>Tip: B'')) = ustr ''4''
   \<and> carbs (parseNutritionResult
     (ustr ''Calories: 1\<newline>calories: 2\<newline>Protein: 3\<newline>PROTEIN: 4\<newline>Carbs: 5\<newline>Carbs: 6\<newline>Fat: 7\<newline>fat: 8\<newline>Tip: A\<newline>X\<newline>Y\<newline>Tip: B'')) = ustr ''6''
   \<and> fat (parseNutritionResult
     (ustr ''Calories: 1\<newline>calories: 2\<newline>Protein: 3\<newline>PROTEIN: 4\<newline>Carbs: 5\<newline>Carbs: 6\<newline>Fat: 7\<newline>fat: 8\<newline>Tip: A\<newline>X\<newline>Y\<newline>Tip: B'')) = ustr ''8''
   \<and> tip (parseNutritionResult
     (ustr ''Calories: 1\<newline>calories: 2\<newline>Protein: 3\<newline>PROTEIN: 4\<newline>Carbs: 5\<newline>Carbs: 6\<newline>Fat: 7\<newline>fat: 8\<newline>Tip: A\<newline>X\<newline>Y\<newline>Tip: B'')) = ustr ''B X Y''"
proof -
  let ?s = "ustr ''Calories: 1\<newline>calories: 2\<newline>Protein: 3\<newline>PROTEIN: 4\<newline>Carbs: 5\<newline>Carbs: 6\<newline>Fat: 7\<newline>fat: 8\<newline>Tip: A\<newline>X\<newline>Y\<newline>Tip: B''"
  let ?ls = "[ustr ''Calories: 1'', ustr ''calories: 2'', ustr ''Protein: 3'',
     ustr ''PROTEIN: 4'', ustr ''Carbs: 5'', ustr ''Carbs: 6'', ustr ''Fat: 7'', ustr ''fat: 8'',
     ustr ''Tip: A'', ustr ''X'', ustr ''Y'', ustr ''Tip: B'']"
  have l: "map trim (split_nl ?s) = ?ls"
    by (simp add: string_eval)
  have fc: "filter (label_test ''calories:'') ?ls = [ustr ''Calories: 1'', ustr ''calories: 2'']"
    by (simp add: string_eval)
  have fp: "filter (label_test ''protein:'') ?ls = [ustr ''Protein: 3'', ustr ''PROTEIN: 4'']"
    by (simp add: string_eval)
  have fb: "filter (label_test ''carbs:'') ?ls = [ustr ''Carbs: 5'', ustr ''Carbs: 6'']"
    by (simp add: string_eval)
  have ff: "filter (label_test ''fat:'') ?ls = [ustr ''Fat: 7'', ustr ''fat: 8'']"
    by (simp add: string_eval)
  have ft: "filter (label_test ''tip:'') ?ls = [ustr ''Tip: A'', ustr ''Tip: B'']"
    by (simp add: string_eval)
  have dt: "tl (dropWhile (\<lambda>t. \<not> label_test ''tip:'' t) ?ls)
      = [ustr ''X'', ustr ''Y'', ustr ''Tip: B'']"
    by (simp add: string_eval)
  have fk: "filter continuation_line [ustr ''X'', ustr ''Y'', ustr ''Tip: B'']
      = [ustr ''X'', ustr ''Y'']"
    by (simp add: string_eval continuation_line_def)
  have v: "trim (label_replace ''calories:'' (ustr ''calories: 2'')) = ustr ''2''"
    "trim (label_replace ''protein:'' (ustr ''PROTEIN: 4'')) = ustr ''4''"
    "trim (label_replace ''carbs:'' (ustr ''Carbs: 6'')) = ustr ''6''"
    "trim (label_replace ''fat:'' (ustr ''fat: 8'')) = ustr ''8''"
    "trim (label_replace ''tip:'' (ustr ''Tip: B'')) = ustr ''B''"
    by (simp_all add: string_eval)
  have j: "ustr ''B'' @ concat [ustr '' '' @ ustr ''X'', ustr '' '' @ ustr ''Y'']
      = ustr ''B X Y''"
    by (simp add: ustr_def)
  note w = last_write_wins [of ?s, unfolded l fc fp fb ff ft dt fk]
  have ne: "filter (label_test ''calories:'') (map trim (split_nl ?s)) \<noteq> []"
    "filter (label_test ''tip:'') (map trim (split_nl ?s)) \<noteq> []"
    unfolding l fc ft by simp_all
  from w ne show ?thesis
    by (simp only: v j last.simps list.simps if_False if_True simp_thms)
qed

subsection \<open>Anchoring of the labels\<close>

text \<open>
  Claim C5. A label matches only at the start of the trimmed line. When no trimmed line
  of the input begins with the label (in either case of its letters, colon included),
  as when the label stands mid-line or lacks its colon, the field is the empty string.
\<close>

theorem label_match_anchored:
  "((\<forall>l \<in> set (split_nl s). map canonicalize (take (length ''calories:'') (trim l))
        \<noteq> map canonicalize (ustr ''calories:'')) \<longrightarrow>
      calories (parseNutritionResult s) = [])
   \<and> ((\<forall>l \<in> set (split_nl s). map canonicalize (take (length ''protein:'') (trim l))
        \<noteq> map canonicalize (ustr ''protein:'')) \<longrightarrow>
      protein (parseNutritionResult s) = [])
   \<and> ((\<forall>l \<in> set (split_nl s). map canonicalize (take (length ''carbs:'') (trim l))
        \<noteq> map canonicalize (ustr ''carbs:'')) \<longrightarrow>
      carbs (parseNutritionResult s) = [])
   \<and> ((\<forall>l \<in> set (split_nl s). map canonicalize (take (length ''fat:'') (trim l))
        \<noteq> map canonicalize (ustr ''fat:'')) \<longrightarrow>
      fat (parseNutritionResult s) = [])
   \<and> ((\<forall>l \<in> set (split_nl s). map canonicalize (take (length ''tip:'') (trim l))
        \<noteq> map canonicalize (ustr ''tip:'')) \<longrightarrow>
      tip (parseNutritionResult s) = [])"
proof -
  have c: "calories (parseNutritionResult s) = []"
    if "\<forall>l \<in> set (split_nl s). \<not> label_test ''calories:'' (trim l)"
    using filter_trim_empty [OF that]
    by (simp add: parse_field_eq parse_lines_calories) (simp add: initial_state_def)
  have p: "protein (parseNutritionResult s) = []"
    if "\<forall>l \<in> set (split_nl s). \<not> label_test ''protein:'' (trim l)"
    using filter_trim_empty [OF that]
    by (simp add: parse_field_eq parse_lines_protein) (simp add: initial_state_def)
  have b: "carbs (parseNutritionResult s) = []"
    if "\<forall>l \<in> set (split_nl s). \<not> label_test ''carbs:'' (trim l)"
    using filter_trim_empty [OF that]
    by (simp add: parse_field_eq parse_lines_carbs) (simp add: initial_state_def)
  have f: "fat (parseNutritionResult s) = []"
    if "\<forall>l \<in> set (split_nl s). \<not> label_test ''fat:'' (trim l)"
    using filter_trim_empty [OF that]
    by (simp add: parse_field_eq parse_lines_fat) (simp add: initial_state_def)
  show ?thesis
    unfolding label_test_take [symmetric]
    using c p b f tip_unmatched [of s] by blast
qed

theorem label_match_anchored_witness:
  "list_all (\<lambda>l. map canonicalize (take (length ''calories:'') (trim l))
        \<noteq> map canonicalize (ustr ''calories:''))
     (split_nl (ustr ''Total calories: 500\<newline>  Calories 500\<newline>about 20g of fat: quite a lot''))
   \<and> list_all (\<lambda>l. map canonicalize (take (length ''fat:'') (trim l))
        \<noteq> map canonicalize (ustr ''fat:''))
     (split_nl (ustr ''Total calories: 500\<newline>  Calories 500\<newline>about 20g of fat: quite a lot''))
   \<and> calories (parseNutritionResult
       (ustr ''Total calories: 500\<newline>  Calories 500\<newline>about 20g of fat: quite a lot'')) = []
   \<and> fat (parseNutritionResult
       (ustr ''Total calories: 500\<newline>  Calories 500\<newline>about 20g of fat: quite a lot'')) = []"
proof -
  let ?s = "ustr ''Total calories: 500\<newline>  Calories 500\<newline>about 20g of fat: quite a lot''"
  have l: "split_nl ?s =
     [ustr ''Total calories: 500'', ustr ''  Calories 500'', ustr ''about 20g of fat: quite a lot'']"
    by (simp add: string_eval)
  have hc: "\<forall>l \<in> set (split_nl ?s). map canonicalize (take (length ''calories:'') (trim l))
        \<noteq> map canonicalize (ustr ''calories:'')"
    unfolding l by (simp add: string_eval)
  have hf: "\<forall>l \<in> set (split_nl ?s). map canonicalize (take (length ''fat:'') (trim l))
        \<noteq> map canonicalize (ustr ''fat:'')"
    unfolding l by (simp add: string_eval)
  from hc hf label_match_anchored [of ?s] show ?thesis
    unfolding list_all_iff by blast
qed

subsection \<open>An empty tip remainder\<close>

text \<open>
  Claim C10. When the remainder of the last \<open>tip:\<close> line is empty and at least one
  continuation line follows the first \<open>tip:\<close> line, the tip is one space followed by
  the continuation lines joined by single spaces; the code unit after that space is
  not white space.
\<close>

theorem tip_empty_remainder_leading_space:
  assumes "split_nl s = pre @ l # post"
    and "\<forall>p \<in> set pre. \<not> label_test ''tip:'' (trim p)"
    and "label_test ''tip:'' (trim l)"
    and "trim (label_replace ''tip:''
           (last (filter (label_test ''tip:'') (map trim (l # post))))) = []"
    and "filter continuation_line (map trim post) \<noteq> []"
  shows "tip (parseNutritionResult s) =
           ustr '' '' @ join (ustr '' '') (filter continuation_line (map trim post))
         \<and> \<not> is_ws (hd (join (ustr '' '') (filter continuation_line (map trim post))))"
proof -
  let ?cs = "filter continuation_line (map trim post)"
  have "tip (parseNutritionResult s) = concat (map (\<lambda>c. ustr '' '' @ c) ?cs)"
    using tip_split [OF assms(1,2,3)] assms(4) by simp
  then have a: "tip (parseNutritionResult s) = ustr '' '' @ join (ustr '' '') ?cs"
    using join_concat [OF assms(5), of "ustr '' ''"] by simp
  have "hd ?cs \<in> set ?cs" using assms(5) by (rule hd_in_set)
  then have "hd ?cs \<in> trim ` set post" and cl: "continuation_line (hd ?cs)"
    by simp_all
  then obtain q where "hd ?cs = trim q"
    by auto
  with cl have q: "hd ?cs = trim q" "continuation_line (trim q)"
    by simp_all
  then have "trim q \<noteq> []" by (simp add: continuation_line_def)
  then have "\<not> is_ws (hd (trim q))" by (rule hd_trim_not_ws)
  moreover have "hd (join (ustr '' '') ?cs) = hd (hd ?cs)"
    using assms(5) q \<open>trim q \<noteq> []\<close> by (intro hd_join) simp_all
  ultimately show ?thesis using a q by simp
qed

theorem tip_empty_remainder_leading_space_witness:
  "split_nl (ustr ''Tip:\<newline>Drink water.'') = [] @ ustr ''Tip:'' # [ustr ''Drink water.'']
   \<and> label_test ''tip:'' (trim (ustr ''Tip:''))
   \<and> trim (label_replace ''tip:''
        (last (filter (label_test ''tip:'')
          (map trim (ustr ''Tip:'' # [ustr ''Drink water.''])))))  = []
   \<and> filter continuation_line (map trim [ustr ''Drink water.'']) \<noteq> []
   \<and> tip (parseNutritionResult (ustr ''Tip:\<newline>Drink water.'')) = ustr '' Drink water.''"
proof -
  have a: "split_nl (ustr ''Tip:\<newline>Drink water.'') = [] @ ustr ''Tip:'' # [ustr ''Drink water.'']"
    by (simp add: string_eval)
  have b: "\<forall>p \<in> set []. \<not> label_test ''tip:'' (trim p)"
    by simp
  have c: "label_test ''tip:'' (trim (ustr ''Tip:''))"
    by (simp add: string_eval)
  have d: "trim (label_replace ''tip:''
        (last (filter (label_test ''tip:'')
          (map trim (ustr ''Tip:'' # [ustr ''Drink water.''])))))  = []"
    by (simp add: string_eval)
  have e: "filter continuation_line (map trim [ustr ''Drink water.'']) = [ustr ''Drink water.'']"
    by (simp add: string_eval continuation_line_def)
  have e': "filter continuation_line (map trim [ustr ''Drink water.'']) \<noteq> []"
    unfolding e by simp
  have "tip (parseNutritionResult (ustr ''Tip:\<newline>Drink water.'')) = ustr '' Drink water.''"
    using tip_empty_remainder_leading_space [OF a b c d e'] unfolding e
    by (simp add: ustr_def)
  with a c d e' show ?thesis by blast
qed

section \<open>Properties of the numbers\<close>

subsection \<open>Rounding\<close>

lemma two_powi_less_iff: "(2::rat) powi a < 2 powi b \<longleftrightarrow> a < b"
proof
  assume "(2::rat) powi a < 2 powi b"
  show "a < b"
  proof (rule ccontr)
    assume "\<not> a < b"
    then have "b \<le> a" by simp
    then have "(2::rat) powi b \<le> 2 powi a" by (intro power_int_increasing) simp_all
    with \<open>(2::rat) powi a < 2 powi b\<close> show False by simp
  qed
next
  assume "a < b"
  then show "(2::rat) powi a < 2 powi b" by (intro power_int_strict_increasing) simp_all
qed

lemma two_powi_le_iff: "(2::rat) powi a \<le> 2 powi b \<longleftrightarrow> a \<le> b"
  using two_powi_less_iff [of b a] by (simp add: linorder_not_less [symmetric])

lemma binade_unique:
  assumes "(2::rat) powi e \<le> x" "x < 2 powi (e + 1)" "2 powi e' \<le> x" "x < 2 powi (e' + 1)"
  shows "e = e'"
proof -
  have "(2::rat) powi e < 2 powi (e' + 1)" using assms(1,4) by (rule le_less_trans)
  moreover have "(2::rat) powi e' < 2 powi (e + 1)" using assms(3,2) by (rule le_less_trans)
  ultimately show ?thesis by (simp add: two_powi_less_iff)
qed

lemma bitlen_powi_bounds:
  assumes "0 < a"
  shows "(2::rat) powi (bitlen a - 1) \<le> of_int a" "of_int a < (2::rat) powi (bitlen a)"
proof -
  have l: "1 \<le> bitlen a" using assms by (simp add: bitlen_alt_def)
  have "2 ^ nat (bitlen a - 1) \<le> a" "a < 2 ^ nat (bitlen a)"
    using bitlen_bounds [OF assms] by simp_all
  then have "(of_int (2 ^ nat (bitlen a - 1)) :: rat) \<le> of_int a"
    "(of_int a :: rat) < of_int (2 ^ nat (bitlen a))"
    by (simp_all only: of_int_le_iff of_int_less_iff)
  then show "(2::rat) powi (bitlen a - 1) \<le> of_int a" "of_int a < (2::rat) powi (bitlen a)"
    using l by (simp_all add: power_int_nonneg_exp)
qed

lemma binade_bounds:
  assumes "0 < x"
  shows "2 powi (binade x) \<le> x \<and> x < 2 powi (binade x + 1)"
proof -
  obtain a b where q: "quotient_of x = (a, b)" by (cases "quotient_of x")
  have b: "0 < b" using q by (rule quotient_of_denom_pos)
  have x: "x = of_int a / of_int b" using q by (rule quotient_of_div)
  have a: "0 < a" using assms b x by (simp add: zero_less_divide_iff)
  let ?k = "bitlen a - bitlen b"
  note ra = bitlen_powi_bounds [OF a] and rb = bitlen_powi_bounds [OF b]
  have pb: "(0::rat) < of_int b" using b by simp
  have up: "x < 2 powi (?k + 1)"
  proof -
    have "x < 2 powi (bitlen a) / of_int b"
      unfolding x using ra(2) pb by (simp add: divide_strict_right_mono)
    also have "\<dots> \<le> 2 powi (bitlen a) / 2 powi (bitlen b - 1)"
      using rb(1) by (intro frac_le) simp_all
    also have "\<dots> = 2 powi (?k + 1)"
      by (simp add: power_int_diff [symmetric] algebra_simps)
    finally show ?thesis .
  qed
  have lo: "2 powi (?k - 1) \<le> x"
  proof -
    have "(2::rat) powi (?k - 1) = 2 powi (bitlen a - 1) / 2 powi (bitlen b)"
      by (simp add: power_int_diff [symmetric] algebra_simps)
    also have "\<dots> \<le> of_int a / 2 powi (bitlen b)"
      using ra(1) by (intro divide_right_mono) simp_all
    also have "\<dots> \<le> of_int a / of_int b"
      using rb(2) a pb by (intro frac_le) simp_all
    finally show ?thesis unfolding x .
  qed
  show ?thesis
  proof (cases "2 powi ?k \<le> x")
    case True
    then have "binade x = ?k" by (simp add: binade_def q)
    with True up show ?thesis by simp
  next
    case False
    then have "binade x = ?k - 1" by (simp add: binade_def q)
    with False lo show ?thesis by simp
  qed
qed

lemma binade_eq:
  assumes "2 powi e \<le> x" "x < 2 powi (e + 1)"
  shows "binade x = e"
proof -
  have "(0::rat) < 2 powi e" by simp
  then have "0 < x" using assms(1) by (rule less_le_trans)
  from binade_bounds [OF this] assms show ?thesis
    using binade_unique by blast
qed

lemma round_half_even_of_int: "round_half_even (of_int k) = k"
  by (simp add: round_half_even_def)

lemma round_half_even_le:
  assumes "x \<le> of_int n"
  shows "round_half_even x \<le> n"
proof (cases "x = of_int n")
  case True
  then show ?thesis by (simp add: round_half_even_of_int)
next
  case False
  with assms have "x < of_int n" by simp
  then have "\<lfloor>x\<rfloor> < n" by (simp add: floor_less_iff)
  then have "\<lfloor>x\<rfloor> + 1 \<le> n" by simp
  moreover have "round_half_even x \<le> \<lfloor>x\<rfloor> + 1"
    by (simp add: round_half_even_def Let_def)
  ultimately show ?thesis by simp
qed

lemma round_half_even_ge:
  assumes "of_int n \<le> x"
  shows "n \<le> round_half_even x"
proof -
  have "n \<le> \<lfloor>x\<rfloor>" using assms by (simp add: le_floor_iff)
  moreover have "\<lfloor>x\<rfloor> \<le> round_half_even x"
    by (simp add: round_half_even_def Let_def)
  ultimately show ?thesis by simp
qed

text \<open>In the normal range below the last binade, rounding is to 53 significant bits.\<close>

lemma round_to_double_normal:
  assumes "2 powi e \<le> x" "x < 2 powi (e + 1)" "- 1022 \<le> e" "e \<le> 1022"
  shows "round_to_double x =
           Finite (of_int (round_half_even (x / 2 powi (e - 52))) * 2 powi (e - 52))"
proof -
  let ?q = "(2::rat) powi (e - 52)"
  let ?m = "round_half_even (x / ?q)"
  have q: "0 < ?q" by simp
  have "(0::rat) < 2 powi e" by simp
  then have x: "0 < x" using assms(1) by (rule less_le_trans)
  have be: "binade \<bar>x\<bar> = e" using x binade_eq [OF assms(1,2)] by simp
  have "x / ?q \<le> 2 powi (e + 1) / ?q"
    using assms(2) q by (intro divide_right_mono) simp_all
  also have "\<dots> = 2 powi 53" by (simp add: power_int_diff [symmetric])
  also have "\<dots> = of_int (2 ^ 53)" by simp
  finally have "?m \<le> 2 ^ 53" by (rule round_half_even_le)
  then have "(of_int ?m :: rat) \<le> of_int (2 ^ 53)" by (simp only: of_int_le_iff)
  then have "of_int ?m * ?q \<le> of_int (2 ^ 53) * ?q"
    using q by (intro mult_right_mono) simp_all
  also have "of_int (2 ^ 53) * ?q = 2 powi (e + 1)"
  proof -
    have eq: "53 + (e - 52) = e + 1" by simp
    have "of_int (2 ^ 53) * ?q = 2 powi 53 * ?q" by simp
    also have "\<dots> = 2 powi (53 + (e - 52))" by (rule power_int_add [symmetric]) simp
    finally show ?thesis unfolding eq .
  qed
  also have "\<dots> < 2 powi 1024" using assms(4) by (simp only: two_powi_less_iff)
  finally have hi: "of_int ?m * ?q < 2 powi 1024" .
  have "of_int 0 \<le> x / ?q" using x q by simp
  then have "0 \<le> ?m" by (rule round_half_even_ge)
  then have "0 \<le> of_int ?m * ?q" using q by simp
  moreover have "- ((2::rat) powi 1024) < 0" by simp
  ultimately have lo: "- (2 powi 1024) < of_int ?m * ?q" by (rule less_le_trans [rotated])
  have e': "max (binade \<bar>x\<bar>) (- 1022) = e" using be assms(3) by simp
  have n0: "(x = 0) = False" using x by simp
  have n1: "(2 powi 1024 \<le> of_int ?m * ?q) = False"
    unfolding eq_False linorder_not_le by (rule hi)
  have n2: "(of_int ?m * ?q \<le> - (2 powi 1024)) = False"
    unfolding eq_False linorder_not_le by (rule lo)
  show ?thesis
    unfolding round_to_double_def Let_def e' by (simp only: n0 n1 n2 if_False)
qed

lemma round_to_double_nat:
  assumes "n \<le> 2 ^ 53"
  shows "round_to_double (of_nat n) = Finite (of_nat n)"
proof (cases "n = 0")
  case True
  then show ?thesis by (simp add: round_to_double_def)
next
  case False
  define x :: rat where "x = of_nat n"
  define e where "e = binade x"
  define q :: rat where "q = 2 powi (e - 52)"
  have x1: "1 \<le> x" using False by (simp add: x_def)
  then have x0: "0 < x" by simp
  have xu: "x \<le> 2 powi 53"
  proof -
    have "x \<le> of_nat (2 ^ 53)" unfolding x_def using assms by (simp only: of_nat_le_iff)
    then show ?thesis by simp
  qed
  have b: "2 powi e \<le> x" "x < 2 powi (e + 1)"
    using binade_bounds [OF x0] by (simp_all add: e_def)
  have "(2::rat) powi 0 < 2 powi (e + 1)"
    using x1 b(2) by simp
  then have e0: "0 \<le> e" by (simp only: two_powi_less_iff)
  have "(2::rat) powi e \<le> 2 powi 53"
    using b(1) xu by (rule order_trans)
  then have e53: "e \<le> 53" by (simp only: two_powi_le_iff)
  have "\<exists>k. x / q = of_int k"
  proof (cases "e \<le> 52")
    case True
    have "x / q = x * 2 powi (52 - e)"
      by (simp add: q_def power_int_diff field_simps)
    also have "\<dots> = x * 2 ^ nat (52 - e)"
      using True by (simp add: power_int_nonneg_exp)
    also have "\<dots> = of_int (int n * 2 ^ nat (52 - e))" by (simp add: x_def)
    finally show ?thesis by blast
  next
    case False
    with e53 have e: "e = 53" by simp
    have "(2::rat) powi 53 \<le> x" using b(1) by (simp only: e)
    with xu have "x = 2 powi 53" by simp
    moreover have "q = 2" by (simp add: q_def e)
    ultimately have "x / q = of_int (2 ^ 52)" by simp
    then show ?thesis by blast
  qed
  then obtain k where k: "x / q = of_int k" by blast
  have q0: "q \<noteq> 0" by (simp add: q_def)
  have "of_int (round_half_even (x / q)) * q = x / q * q"
    by (simp only: k round_half_even_of_int)
  then have "of_int (round_half_even (x / q)) * q = x" using q0 by simp
  moreover have "round_to_double x = Finite (of_int (round_half_even (x / q)) * q)"
    unfolding q_def using b e0 e53 by (intro round_to_double_normal) simp_all
  ultimately show ?thesis by (simp add: x_def)
qed

lemma round_to_double_numeral:
  "numeral k \<le> (2::nat) ^ 53 \<Longrightarrow> round_to_double (numeral k) = Finite (numeral k)"
  using round_to_double_nat [of "numeral k"] by simp

lemma round_half_even_fraction:
  assumes "0 < b"
  shows "round_half_even (of_int a / of_int b) =
           (if 2 * (a mod b) < b then a div b
            else if b < 2 * (a mod b) then a div b + 1
            else if even (a div b) then a div b else a div b + 1)"
proof -
  let ?x = "of_int a / of_int b :: rat"
  have pb: "(0::rat) < of_int b" using assms by simp
  have f: "\<lfloor>?x\<rfloor> = a div b" by (simp add: floor_divide_of_int_eq)
  have "of_int a = of_int (a div b) * of_int b + (of_int (a mod b) :: rat)"
    by (simp only: of_int_mult [symmetric] of_int_add [symmetric] div_mult_mod_eq)
  then have d: "?x - of_int (a div b) = of_int (a mod b) / of_int b"
    using pb by (simp add: field_simps)
  have l: "?x - of_int (a div b) < 1 / 2 \<longleftrightarrow> 2 * (a mod b) < b"
  proof -
    have "of_int (a mod b) / of_int b < (1 / 2 :: rat) \<longleftrightarrow>
        (of_int (2 * (a mod b)) :: rat) < of_int b"
      using pb by (simp add: field_simps)
    then show ?thesis unfolding d by (simp only: of_int_less_iff)
  qed
  have g: "1 / 2 < ?x - of_int (a div b) \<longleftrightarrow> b < 2 * (a mod b)"
  proof -
    have "(1 / 2 :: rat) < of_int (a mod b) / of_int b \<longleftrightarrow>
        (of_int b :: rat) < of_int (2 * (a mod b))"
      using pb by (simp add: field_simps)
    then show ?thesis unfolding d by (simp only: of_int_less_iff)
  qed
  show ?thesis
    unfolding round_half_even_def Let_def f l g ..
qed

lemma round_half_even_numeral_fraction:
  "round_half_even (numeral a / numeral b) =
     (if 2 * (numeral a mod numeral b) < (numeral b :: int) then numeral a div numeral b
      else if (numeral b :: int) < 2 * (numeral a mod numeral b) then numeral a div numeral b + 1
      else if even (numeral a div numeral b :: int) then numeral a div numeral b
      else numeral a div numeral b + 1)"
  using round_half_even_fraction [of "numeral b" "numeral a"] by simp

lemma round_half_even_numeral: "round_half_even (numeral k) = numeral k"
  using round_half_even_of_int [of "numeral k"] by simp

lemmas round_eval = round_half_even_numeral_fraction round_half_even_numeral

section \<open>Properties of the numeric extractor\<close>

lemma match_here_nondigit: "\<not> is_digit c \<Longrightarrow> match_here (c # cs) = None"
  by (simp add: match_here_def)

lemma match_here_empty: "match_here [] = None"
  by (simp add: match_here_def)

lemma match_number_skip:
  "\<forall>c \<in> set pre. \<not> is_digit c \<Longrightarrow> match_number (pre @ s) = match_number s"
  by (induction pre) (simp_all add: match_here_nondigit)

lemma match_number_no_digit:
  "\<forall>c \<in> set s. \<not> is_digit c \<Longrightarrow> match_number s = None"
  using match_number_skip [of s "[]"] by simp

lemma match_number_digit:
  assumes "is_digit c"
  shows "match_number (c # cs) = match_here (c # cs)"
proof -
  have "match_here (c # cs) \<noteq> None"
    using assms by (simp add: match_here_def Let_def split: list.split)
  then show ?thesis by (auto split: option.split)
qed

lemma digits_run:
  assumes "\<forall>c \<in> set ds. is_digit c" and "\<not> (\<exists>c r. rest = c # r \<and> is_digit c)"
  shows "takeWhile is_digit (ds @ rest) = ds" "dropWhile is_digit (ds @ rest) = rest"
proof -
  have r: "takeWhile is_digit rest = []" "dropWhile is_digit rest = rest"
    using assms(2) by (cases rest; simp)+
  show "takeWhile is_digit (ds @ rest) = ds"
    using assms(1) r(1) by (simp add: takeWhile_append2)
  show "dropWhile is_digit (ds @ rest) = rest"
    using assms(1) r(2) by (simp add: dropWhile_append2)
qed

lemma digits_all:
  assumes "\<forall>c \<in> set ds. is_digit c"
  shows "takeWhile is_digit ds = ds" "dropWhile is_digit ds = []"
  using assms by simp_all

lemma point_not_digit: "\<not> is_digit 0x002E"
  by (simp add: is_digit_def)

lemma match_number_integer:
  assumes "\<forall>c \<in> set pre. \<not> is_digit c" and "ds \<noteq> []" and "\<forall>c \<in> set ds. is_digit c"
    and "\<not> (\<exists>c r. rest = c # r \<and> is_digit c)"
    and "\<not> (\<exists>c r. rest = 0x002E # c # r \<and> is_digit c)"
  shows "match_number (pre @ ds @ rest) = Some ds"
proof -
  obtain d ds' where ds: "ds = d # ds'" using assms(2) by (cases ds) auto
  then have d: "is_digit d" using assms(3) by simp
  have "match_number (pre @ ds @ rest) = match_number (ds @ rest)"
    using assms(1) by (rule match_number_skip)
  also have "\<dots> = match_here (ds @ rest)"
    using match_number_digit [OF d, of "ds' @ rest"] by (simp add: ds)
  also have "\<dots> = Some ds"
  proof (cases rest)
    case Nil
    then show ?thesis
      using assms(2) by (simp add: match_here_def Let_def digits_all [OF assms(3)])
  next
    case (Cons c r)
    have "takeWhile is_digit r = []" if "c = 0x002E"
      using assms(5) that Cons by (cases r) auto
    then show ?thesis
      using digits_run [OF assms(3,4)] assms(2) Cons by (auto simp add: match_here_def Let_def)
  qed
  finally show ?thesis .
qed

lemma match_number_fraction:
  assumes "\<forall>c \<in> set pre. \<not> is_digit c" and "ds \<noteq> []" and "\<forall>c \<in> set ds. is_digit c"
    and "fs \<noteq> []" and "\<forall>c \<in> set fs. is_digit c"
    and "\<not> (\<exists>c r. rest = c # r \<and> is_digit c)"
  shows "match_number (pre @ ds @ [0x002E] @ fs @ rest) = Some (ds @ [0x002E] @ fs)"
proof -
  obtain d ds' where ds: "ds = d # ds'" using assms(2) by (cases ds) auto
  then have d: "is_digit d" using assms(3) by simp
  have n: "\<not> (\<exists>c r. [0x002E] @ fs @ rest = c # r \<and> is_digit c)"
    using point_not_digit by simp
  have "match_number (pre @ ds @ [0x002E] @ fs @ rest) = match_number (ds @ [0x002E] @ fs @ rest)"
    using assms(1) by (rule match_number_skip)
  also have "\<dots> = match_here (ds @ [0x002E] @ fs @ rest)"
    using match_number_digit [OF d, of "ds' @ [0x002E] @ fs @ rest"] by (simp add: ds)
  also have "\<dots> = Some (ds @ [0x002E] @ fs)"
    using digits_run [OF assms(3) n] digits_run [OF assms(5,6)] assms(2,4)
    by (simp add: match_here_def Let_def)
  finally show ?thesis .
qed

lemma parseFloat_integer:
  assumes "\<forall>c \<in> set ds. is_digit c"
  shows "parseFloat ds = round_to_double (of_nat (digits_value ds))"
proof -
  show ?thesis
    by (simp add: parseFloat_def Let_def digits_all [OF assms] digits_value_def)
qed

lemma parseFloat_fraction:
  assumes "\<forall>c \<in> set ds. is_digit c" and "\<forall>c \<in> set fs. is_digit c"
  shows "parseFloat (ds @ [0x002E] @ fs) =
           round_to_double (of_nat (digits_value ds) + of_nat (digits_value fs) / 10 ^ length fs)"
proof -
  have n: "\<not> (\<exists>c r. [0x002E] @ fs = c # r \<and> is_digit c)"
    using point_not_digit by simp
  from digits_run [OF assms(1) n] show ?thesis
    by (simp add: parseFloat_def Let_def digits_all [OF assms(2)])
qed

lemmas extract_eval =
  extractNumericValue_def parseFloat_def match_here_def digits_value_def is_digit_def
  ustr_def cu_def Let_def

lemma token_forms:
  "(\<forall>c \<in> set s. \<not> is_digit c)
   \<or> (\<exists>pre ds rest. s = pre @ ds @ rest
        \<and> (\<forall>c \<in> set pre. \<not> is_digit c) \<and> ds \<noteq> [] \<and> (\<forall>c \<in> set ds. is_digit c)
        \<and> \<not> (\<exists>c r. rest = c # r \<and> is_digit c)
        \<and> \<not> (\<exists>c r. rest = 0x002E # c # r \<and> is_digit c))
   \<or> (\<exists>pre ds fs rest. s = pre @ ds @ [0x002E] @ fs @ rest
        \<and> (\<forall>c \<in> set pre. \<not> is_digit c) \<and> ds \<noteq> [] \<and> (\<forall>c \<in> set ds. is_digit c)
        \<and> fs \<noteq> [] \<and> (\<forall>c \<in> set fs. is_digit c)
        \<and> \<not> (\<exists>c r. rest = c # r \<and> is_digit c))"
proof (cases "\<forall>c \<in> set s. \<not> is_digit c")
  case True
  then show ?thesis by blast
next
  case False
  define pre where "pre = takeWhile (\<lambda>c. \<not> is_digit c) s"
  define s' where "s' = dropWhile (\<lambda>c. \<not> is_digit c) s"
  define ds where "ds = takeWhile is_digit s'"
  define rest where "rest = dropWhile is_digit s'"
  have s: "s = pre @ ds @ rest"
    by (simp add: pre_def s'_def ds_def rest_def)
  have pre: "\<forall>c \<in> set pre. \<not> is_digit c"
    unfolding pre_def by (auto dest: set_takeWhileD)
  have "s' \<noteq> []" using False by (auto simp add: s'_def)
  moreover from this have "is_digit (hd s')"
    using hd_dropWhile [of "\<lambda>c. \<not> is_digit c" s] by (simp add: s'_def)
  ultimately have ds: "ds \<noteq> []" by (cases s') (simp_all add: ds_def)
  have dsd: "\<forall>c \<in> set ds. is_digit c"
    unfolding ds_def by (auto dest: set_takeWhileD)
  have rest: "\<not> (\<exists>c r. rest = c # r \<and> is_digit c)"
  proof
    assume "\<exists>c r. rest = c # r \<and> is_digit c"
    then obtain c r where "rest = c # r" "is_digit c" by blast
    then show False
      using hd_dropWhile [of is_digit s'] by (simp add: rest_def)
  qed
  show ?thesis
  proof (cases "\<exists>c r. rest = 0x002E # c # r \<and> is_digit c")
    case False
    with s pre ds dsd rest show ?thesis by blast
  next
    case True
    then obtain c r where r: "rest = 0x002E # c # r" "is_digit c" by blast
    define fs where "fs = takeWhile is_digit (c # r)"
    define rest' where "rest' = dropWhile is_digit (c # r)"
    have "rest = [0x002E] @ fs @ rest'"
      by (simp add: r(1) fs_def rest'_def del: takeWhile.simps dropWhile.simps)
    with s have s2: "s = pre @ ds @ [0x002E] @ fs @ rest'" by simp
    have fs: "fs \<noteq> []" using r(2) by (simp add: fs_def)
    have fsd: "\<forall>c \<in> set fs. is_digit c"
      unfolding fs_def by (auto dest: set_takeWhileD simp del: takeWhile.simps)
    have rest': "\<not> (\<exists>c r. rest' = c # r \<and> is_digit c)"
    proof
      assume "\<exists>d t. rest' = d # t \<and> is_digit d"
      then obtain d t where "rest' = d # t" "is_digit d" by blast
      then show False
        using hd_dropWhile [of is_digit "c # r"] by (simp add: rest'_def del: dropWhile.simps)
    qed
    from s2 pre ds dsd fs fsd rest' show ?thesis by blast
  qed
qed

text \<open>
  Claim C6. \<open>extractNumericValue\<close> returns 0 when the string has no digit. Otherwise
  it returns the Number value of the first numeric token: the first run of digits, with
  a point and the run of digits after it when the run is followed by a point and a digit.
  What comes before the first digit is skipped and what follows the token is ignored.
  Every string is of one of these three forms. The five examples of the specification
  evaluate to 32, 720, 0, 3.5 and 20.
\<close>

theorem extractNumericValue_first_token:
  "((\<forall>c \<in> set s. \<not> is_digit c) \<longrightarrow> extractNumericValue s = Finite 0)
   \<and> ((\<forall>c \<in> set pre. \<not> is_digit c) \<and> ds \<noteq> [] \<and> (\<forall>c \<in> set ds. is_digit c)
        \<and> \<not> (\<exists>c r. rest = c # r \<and> is_digit c)
        \<and> \<not> (\<exists>c r. rest = 0x002E # c # r \<and> is_digit c) \<longrightarrow>
      extractNumericValue (pre @ ds @ rest) = round_to_double (of_nat (digits_value ds)))
   \<and> ((\<forall>c \<in> set pre. \<not> is_digit c) \<and> ds \<noteq> [] \<and> (\<forall>c \<in> set ds. is_digit c)
        \<and> fs \<noteq> [] \<and> (\<forall>c \<in> set fs. is_digit c)
        \<and> \<not> (\<exists>c r. rest = c # r \<and> is_digit c) \<longrightarrow>
      extractNumericValue (pre @ ds @ [0x002E] @ fs @ rest) =
        round_to_double (of_nat (digits_value ds) + of_nat (digits_value fs) / 10 ^ length fs))
   \<and> extractNumericValue (ustr ''32g'') = Finite 32
   \<and> extractNumericValue (ustr ''~720 kcal'') = Finite 720
   \<and> extractNumericValue (ustr ''no data'') = Finite 0
   \<and> extractNumericValue (ustr ''3.5g'') = Finite (7 / 2)
   \<and> extractNumericValue (ustr ''20-30g'') = Finite 20
   \<and> ((\<forall>c \<in> set s. \<not> is_digit c)
      \<or> (\<exists>pre ds rest. s = pre @ ds @ rest
           \<and> (\<forall>c \<in> set pre. \<not> is_digit c) \<and> ds \<noteq> [] \<and> (\<forall>c \<in> set ds. is_digit c)
           \<and> \<not> (\<exists>c r. rest = c # r \<and> is_digit c)
           \<and> \<not> (\<exists>c r. rest = 0x002E # c # r \<and> is_digit c))
      \<or> (\<exists>pre ds fs rest. s = pre @ ds @ [0x002E] @ fs @ rest
           \<and> (\<forall>c \<in> set pre. \<not> is_digit c) \<and> ds \<noteq> [] \<and> (\<forall>c \<in> set ds. is_digit c)
           \<and> fs \<noteq> [] \<and> (\<forall>c \<in> set fs. is_digit c)
           \<and> \<not> (\<exists>c r. rest = c # r \<and> is_digit c)))"
proof -
  have a: "extractNumericValue s = Finite 0" if "\<forall>c \<in> set s. \<not> is_digit c"
    using match_number_no_digit [OF that] by (simp add: extractNumericValue_def)
  have b: "extractNumericValue (pre @ ds @ rest) = round_to_double (of_nat (digits_value ds))"
    if "\<forall>c \<in> set pre. \<not> is_digit c" "ds \<noteq> []" "\<forall>c \<in> set ds. is_digit c"
      "\<not> (\<exists>c r. rest = c # r \<and> is_digit c)"
      "\<not> (\<exists>c r. rest = 0x002E # c # r \<and> is_digit c)"
    using match_number_integer [OF that] parseFloat_integer [OF that(3)]
    by (simp add: extractNumericValue_def)
  have c: "extractNumericValue (pre @ ds @ [0x002E] @ fs @ rest) =
        round_to_double (of_nat (digits_value ds) + of_nat (digits_value fs) / 10 ^ length fs)"
    if "\<forall>c \<in> set pre. \<not> is_digit c" "ds \<noteq> []" "\<forall>c \<in> set ds. is_digit c"
      "fs \<noteq> []" "\<forall>c \<in> set fs. is_digit c" "\<not> (\<exists>c r. rest = c # r \<and> is_digit c)"
    using match_number_fraction [OF that] parseFloat_fraction [OF that(3,5)]
    by (simp add: extractNumericValue_def)
  have e1: "extractNumericValue (ustr ''32g'') = Finite 32"
    by (simp add: extract_eval round_to_double_numeral)
  have e2: "extractNumericValue (ustr ''~720 kcal'') = Finite 720"
    by (simp add: extract_eval round_to_double_numeral)
  have e3: "extractNumericValue (ustr ''no data'') = Finite 0"
    by (simp add: extract_eval)
  have e4: "extractNumericValue (ustr ''3.5g'') = round_to_double (7 / 2)"
    by (simp add: extract_eval)
  have "round_to_double (7 / 2) = Finite (7 / 2)"
    using round_to_double_normal [of 1 "7 / 2"] by (simp add: round_eval)
  with e4 have e4': "extractNumericValue (ustr ''3.5g'') = Finite (7 / 2)" by simp
  have e5: "extractNumericValue (ustr ''20-30g'') = Finite 20"
    by (simp add: extract_eval round_to_double_numeral)
  have A: "(\<forall>c \<in> set s. \<not> is_digit c) \<longrightarrow> extractNumericValue s = Finite 0"
    using a by blast
  have B: "(\<forall>c \<in> set pre. \<not> is_digit c) \<and> ds \<noteq> [] \<and> (\<forall>c \<in> set ds. is_digit c)
        \<and> \<not> (\<exists>c r. rest = c # r \<and> is_digit c)
        \<and> \<not> (\<exists>c r. rest = 0x002E # c # r \<and> is_digit c) \<longrightarrow>
      extractNumericValue (pre @ ds @ rest) = round_to_double (of_nat (digits_value ds))"
    using b by blast
  have C: "(\<forall>c \<in> set pre. \<not> is_digit c) \<and> ds \<noteq> [] \<and> (\<forall>c \<in> set ds. is_digit c)
        \<and> fs \<noteq> [] \<and> (\<forall>c \<in> set fs. is_digit c)
        \<and> \<not> (\<exists>c r. rest = c # r \<and> is_digit c) \<longrightarrow>
      extractNumericValue (pre @ ds @ [0x002E] @ fs @ rest) =
        round_to_double (of_nat (digits_value ds) + of_nat (digits_value fs) / 10 ^ length fs)"
    using c by blast
  note t = token_forms [of s]
  show ?thesis
    by (intro conjI) (fact A B C e1 e2 e3 e4' e5 t)+
qed

theorem extractNumericValue_first_token_witness:
  "list_all (\<lambda>c. \<not> is_digit c) (ustr ''N/A'')
   \<and> extractNumericValue (ustr ''N/A'') = Finite 0
   \<and> list_all (\<lambda>c. \<not> is_digit c) (ustr ''about '')
   \<and> list_all is_digit (ustr ''25'')
   \<and> extractNumericValue (ustr ''about '' @ ustr ''25'' @ ustr ''.g of fat, or 30'') = Finite 25
   \<and> list_all is_digit (ustr ''75'')
   \<and> extractNumericValue (ustr ''about '' @ ustr ''25'' @ [0x002E] @ ustr ''75'' @ ustr ''.5g'')
       = Finite (103 / 4)"
proof -
  have n: "\<forall>c \<in> set (ustr ''N/A''). \<not> is_digit c"
    by (simp add: ustr_def cu_def is_digit_def)
  have p: "\<forall>c \<in> set (ustr ''about ''). \<not> is_digit c"
    by (simp add: ustr_def cu_def is_digit_def)
  have d: "ustr ''25'' \<noteq> []" "\<forall>c \<in> set (ustr ''25''). is_digit c"
    by (simp_all add: ustr_def cu_def is_digit_def)
  have f: "ustr ''75'' \<noteq> []" "\<forall>c \<in> set (ustr ''75''). is_digit c"
    by (simp_all add: ustr_def cu_def is_digit_def)
  have r1: "\<not> (\<exists>c r. ustr ''.g of fat, or 30'' = c # r \<and> is_digit c)"
    "\<not> (\<exists>c r. ustr ''.g of fat, or 30'' = 0x002E # c # r \<and> is_digit c)"
    by (simp_all add: ustr_def cu_def is_digit_def)
  have r2: "\<not> (\<exists>c r. ustr ''.5g'' = c # r \<and> is_digit c)"
    by (simp add: ustr_def cu_def is_digit_def)
  have v: "digits_value (ustr ''25'') = 25" "digits_value (ustr ''75'') = 75"
    "length (ustr ''75'') = 2"
    by (simp_all add: digits_value_def ustr_def cu_def)
  have rd: "round_to_double (103 / 4) = Finite (103 / 4)"
    using round_to_double_normal [of 4 "103 / 4"] by (simp add: round_eval)
  note t = extractNumericValue_first_token
    [of "ustr ''N/A''" "ustr ''about ''" "ustr ''25''" "ustr ''.g of fat, or 30''" "ustr ''75''"]
  note t' = extractNumericValue_first_token
    [of "ustr ''N/A''" "ustr ''about ''" "ustr ''25''" "ustr ''.5g''" "ustr ''75''"]
  have a: "extractNumericValue (ustr ''N/A'') = Finite 0"
    using t n by blast
  have b: "extractNumericValue (ustr ''about '' @ ustr ''25'' @ ustr ''.g of fat, or 30'') =
      round_to_double (of_nat (digits_value (ustr ''25'')))"
    using t p d r1 by blast
  have c: "extractNumericValue (ustr ''about '' @ ustr ''25'' @ [0x002E] @ ustr ''75'' @ ustr ''.5g'')
      = round_to_double (of_nat (digits_value (ustr ''25''))
          + of_nat (digits_value (ustr ''75'')) / 10 ^ length (ustr ''75''))"
    using t' p d f r2 by blast
  have b': "extractNumericValue (ustr ''about '' @ ustr ''25'' @ ustr ''.g of fat, or 30'') = Finite 25"
    unfolding b v by (simp add: round_to_double_numeral)
  have c': "extractNumericValue (ustr ''about '' @ ustr ''25'' @ [0x002E] @ ustr ''75'' @ ustr ''.5g'')
      = Finite (103 / 4)"
    unfolding c v using rd by simp
  from n p d f a b' c' show ?thesis
    unfolding list_all_iff by blast
qed

section \<open>Properties of the chart\<close>

lemma strict_equal_zero: "strict_equal x (Finite 0) \<longleftrightarrow> x = Finite 0"
  by (auto simp add: strict_equal_def)

lemma extract_no_digit:
  "\<forall>c \<in> set s. \<not> is_digit c \<Longrightarrow> extractNumericValue s = Finite 0"
  using match_number_no_digit [of s] by (simp add: extractNumericValue_def)

text \<open>
  Claim C9. \<open>NutritionPieChart\<close> returns the fallback exactly when the three
  magnitudes extracted from protein, carbs and fat are all zero, and the pie chart over
  the three magnitudes otherwise. Strings without a digit, such as \<open>"N/A"\<close>, give the
  fallback.
\<close>

theorem chart_no_data_iff_all_zero:
  "(NutritionPieChart nd = NoMacroData \<longleftrightarrow>
      extractNumericValue (protein nd) = Finite 0
      \<and> extractNumericValue (carbs nd) = Finite 0
      \<and> extractNumericValue (fat nd) = Finite 0)
   \<and> (NutritionPieChart nd \<noteq> NoMacroData \<longleftrightarrow>
      NutritionPieChart nd =
        Pie (extractNumericValue (protein nd)) (extractNumericValue (carbs nd))
          (extractNumericValue (fat nd)))
   \<and> ((\<forall>c \<in> set (protein nd). \<not> is_digit c) \<and> (\<forall>c \<in> set (carbs nd). \<not> is_digit c)
        \<and> (\<forall>c \<in> set (fat nd). \<not> is_digit c) \<longrightarrow>
      NutritionPieChart nd = NoMacroData)"
proof -
  have a: "NutritionPieChart nd = NoMacroData \<longleftrightarrow>
      extractNumericValue (protein nd) = Finite 0
      \<and> extractNumericValue (carbs nd) = Finite 0
      \<and> extractNumericValue (fat nd) = Finite 0"
    by (simp add: NutritionPieChart_def Let_def strict_equal_zero)
  have b: "NutritionPieChart nd \<noteq> NoMacroData \<longleftrightarrow>
      NutritionPieChart nd =
        Pie (extractNumericValue (protein nd)) (extractNumericValue (carbs nd))
          (extractNumericValue (fat nd))"
    by (simp add: NutritionPieChart_def Let_def strict_equal_zero)
  have c: "NutritionPieChart nd = NoMacroData"
    if "\<forall>c \<in> set (protein nd). \<not> is_digit c" "\<forall>c \<in> set (carbs nd). \<not> is_digit c"
      "\<forall>c \<in> set (fat nd). \<not> is_digit c"
    unfolding a using that by (simp add: extract_no_digit)
  from a b c show ?thesis by blast
qed

theorem chart_no_data_iff_all_zero_witness:
  "list_all (\<lambda>c. \<not> is_digit c) (ustr ''N/A'')
   \<and> NutritionPieChart \<lparr>calories = ustr ''250 kcal'', protein = ustr ''N/A'',
        carbs = ustr ''N/A'', fat = ustr ''N/A'', tip = ustr ''Eat 5 a day.''\<rparr> = NoMacroData"
proof -
  let ?nd = "\<lparr>calories = ustr ''250 kcal'', protein = ustr ''N/A'',
        carbs = ustr ''N/A'', fat = ustr ''N/A'', tip = ustr ''Eat 5 a day.''\<rparr>"
  have n: "\<forall>c \<in> set (ustr ''N/A''). \<not> is_digit c"
    by (simp add: ustr_def cu_def is_digit_def)
  then have "(\<forall>c \<in> set (protein ?nd). \<not> is_digit c) \<and> (\<forall>c \<in> set (carbs ?nd). \<not> is_digit c)
        \<and> (\<forall>c \<in> set (fat ?nd). \<not> is_digit c)"
    by simp
  with chart_no_data_iff_all_zero [of ?nd] have "NutritionPieChart ?nd = NoMacroData"
    by blast
  with n show ?thesis unfolding list_all_iff by blast
qed

section \<open>Properties of the daily totals\<close>

lemma js_add_nat:
  assumes "n + m \<le> 2 ^ 53"
  shows "js_add (Finite (of_nat n)) (Finite (of_nat m)) = Finite (of_nat (n + m))"
  using round_to_double_nat [OF assms] by simp

lemma foldl_js_add_nat:
  "k + sum_list ns \<le> 2 ^ 53 \<Longrightarrow>
     foldl js_add (Finite (of_nat k)) (map (\<lambda>n. Finite (of_nat n)) ns) =
       Finite (of_nat (k + sum_list ns))"
proof (induction ns arbitrary: k)
  case Nil
  then show ?case by simp
next
  case (Cons n ns)
  have "k + n \<le> 2 ^ 53" using Cons.prems by simp
  then have "js_add (Finite (of_nat k)) (Finite (of_nat n)) = Finite (of_nat (k + n))"
    by (rule js_add_nat)
  moreover have "k + n + sum_list ns \<le> 2 ^ 53" using Cons.prems by simp
  ultimately show ?case
    using Cons.IH [of "k + n"] by (simp add: add.assoc)
qed

lemma js_sum_nat:
  assumes "xs = map (\<lambda>n. Finite (of_nat n)) ns" and "sum_list ns \<le> 2 ^ 53"
  shows "foldl js_add (Finite 0) xs = Finite (of_nat (sum_list ns))"
  using foldl_js_add_nat [of 0 ns] assms by simp

lemma total_folds:
  "total_calories meals = foldl js_add (Finite 0) (map MealEntry.calories meals)"
  "total_protein meals = foldl js_add (Finite 0) (map MealEntry.protein meals)"
  "total_carbs meals = foldl js_add (Finite 0) (map MealEntry.carbs meals)"
  "total_fat meals = foldl js_add (Finite 0) (map MealEntry.fat meals)"
  by (simp_all add: total_calories_def total_protein_def total_carbs_def total_fat_def foldl_map)

lemma js_sum_perm:
  assumes "mset ys = mset xs" and "xs = map (\<lambda>n. Finite (of_nat n)) ns"
    and "sum_list ns \<le> 2 ^ 53"
  shows "foldl js_add (Finite 0) ys = foldl js_add (Finite 0) xs"
proof -
  define g :: "number \<Rightarrow> nat" where "g = (\<lambda>x. case x of Finite q \<Rightarrow> nat \<lfloor>q\<rfloor> | _ \<Rightarrow> 0)"
  have gf: "g (Finite (of_nat n)) = n" for n by (simp add: g_def)
  have "set ys = set xs" using assms(1) by (rule mset_eq_setD)
  then have "\<forall>y \<in> set ys. \<exists>n. y = Finite (of_nat n)"
    unfolding assms(2) by auto
  then have "\<forall>y \<in> set ys. Finite (of_nat (g y)) = y"
    using gf by auto
  then have ys: "ys = map (\<lambda>n. Finite (of_nat n)) (map g ys)"
    by (simp add: map_idI)
  have "mset (map g ys) = image_mset g (mset xs)"
    using assms(1) by simp
  also have "\<dots> = mset (map g xs)" by simp
  also have "map g xs = ns" unfolding assms(2) by (simp add: gf o_def)
  finally have "sum_list (map g ys) = sum_list ns"
    by (metis sum_mset_sum_list)
  then have "foldl js_add (Finite 0) ys = Finite (of_nat (sum_list ns))"
    using js_sum_nat [OF ys] assms(3) by simp
  moreover have "foldl js_add (Finite 0) xs = Finite (of_nat (sum_list ns))"
    using assms(2,3) by (rule js_sum_nat)
  ultimately show ?thesis by simp
qed

lemma saved_protein:
  "result \<noteq> [] \<Longrightarrow>
     map MealEntry.protein (saveMealFromAnalysis now date result meals) =
       map MealEntry.protein meals
       @ [extractNumericValue (NutritionData.protein (parseNutritionResult result))]"
  by (simp add: saveMealFromAnalysis_def Let_def)






text \<open>
  Claim C8, as stated, fails: \<open>+\<close> on numbers rounds after every step, so it is not
  associative, and a total can depend on the order of the meals. Three meals saved from
  analyses with 0.1 g, 0.2 g and 0.3 g of protein total 0.6000000000000001 g in the
  order saved and 0.6 g in the reverse order.
\<close>

theorem totals_order_counterexample:
  "mset (rev (saveMealFromAnalysis 3 3 (ustr ''Protein: 0.3g'')
       (saveMealFromAnalysis 2 2 (ustr ''Protein: 0.2g'')
         (saveMealFromAnalysis 1 1 (ustr ''Protein: 0.1g'') []))))
     = mset (saveMealFromAnalysis 3 3 (ustr ''Protein: 0.3g'')
       (saveMealFromAnalysis 2 2 (ustr ''Protein: 0.2g'')
         (saveMealFromAnalysis 1 1 (ustr ''Protein: 0.1g'') [])))
   \<and> total_protein (rev (saveMealFromAnalysis 3 3 (ustr ''Protein: 0.3g'')
       (saveMealFromAnalysis 2 2 (ustr ''Protein: 0.2g'')
         (saveMealFromAnalysis 1 1 (ustr ''Protein: 0.1g'') []))))
     \<noteq> total_protein (saveMealFromAnalysis 3 3 (ustr ''Protein: 0.3g'')
       (saveMealFromAnalysis 2 2 (ustr ''Protein: 0.2g'')
         (saveMealFromAnalysis 1 1 (ustr ''Protein: 0.1g'') [])))"
proof -
  let ?A = "3602879701896397 / 36028797018963968 :: rat"
  let ?B = "3602879701896397 / 18014398509481984 :: rat"
  let ?C = "5404319552844595 / 18014398509481984 :: rat"
  let ?meals = "(saveMealFromAnalysis 3 3 (ustr ''Protein: 0.3g'')
       (saveMealFromAnalysis 2 2 (ustr ''Protein: 0.2g'')
         (saveMealFromAnalysis 1 1 (ustr ''Protein: 0.1g'') [])))"
  have n: "ustr ''Protein: 0.1g'' \<noteq> []" "ustr ''Protein: 0.2g'' \<noteq> []"
    "ustr ''Protein: 0.3g'' \<noteq> []"
    by (simp_all add: ustr_def)
  have s: "NutritionData.protein (parseNutritionResult (ustr ''Protein: 0.1g'')) = ustr ''0.1g''"
    "NutritionData.protein (parseNutritionResult (ustr ''Protein: 0.2g'')) = ustr ''0.2g''"
    "NutritionData.protein (parseNutritionResult (ustr ''Protein: 0.3g'')) = ustr ''0.3g''"
    by (simp_all add: parser_eval)
  have x: "extractNumericValue (ustr ''0.1g'') = round_to_double (1 / 10)"
    "extractNumericValue (ustr ''0.2g'') = round_to_double (2 / 10)"
    "extractNumericValue (ustr ''0.3g'') = round_to_double (3 / 10)"
    by (simp_all add: extract_eval)
  have r: "round_to_double (1 / 10) = Finite ?A" "round_to_double (2 / 10) = Finite ?B"
    "round_to_double (3 / 10) = Finite ?C"
    using round_to_double_normal [of "- 4" "1 / 10"] round_to_double_normal [of "- 3" "2 / 10"]
      round_to_double_normal [of "- 2" "3 / 10"]
    by (simp_all add: round_eval)
  have p: "map MealEntry.protein ?meals = [Finite ?A, Finite ?B, Finite ?C]"
    by (simp only: saved_protein [OF n(1)] saved_protein [OF n(2)] saved_protein [OF n(3)]
        s x r list.map append.simps)
  have p': "map MealEntry.protein (rev ?meals) = [Finite ?C, Finite ?B, Finite ?A]"
    by (simp only: rev_map [symmetric] p rev.simps append.simps)
  have a1: "js_add (Finite 0) (Finite ?A) = Finite ?A"
    using round_to_double_normal [of "- 4" "0 + ?A"] by (simp add: round_eval)
  have a2: "js_add (Finite ?A) (Finite ?B) = Finite (1351079888211149 / 4503599627370496)"
    using round_to_double_normal [of "- 2" "?A + ?B"] by (simp add: round_eval)
  have a3: "js_add (Finite (1351079888211149 / 4503599627370496)) (Finite ?C)
      = Finite (1351079888211149 / 2251799813685248)"
    using round_to_double_normal [of "- 1" "1351079888211149 / 4503599627370496 + ?C"]
    by (simp add: round_eval)
  have b1: "js_add (Finite 0) (Finite ?C) = Finite ?C"
    using round_to_double_normal [of "- 2" "0 + ?C"] by (simp add: round_eval)
  have b2: "js_add (Finite ?C) (Finite ?B) = Finite (1 / 2)"
    using round_to_double_normal [of "- 1" "?C + ?B"] by (simp add: round_eval)
  have b3: "js_add (Finite (1 / 2)) (Finite ?A) = Finite (5404319552844595 / 9007199254740992)"
    using round_to_double_normal [of "- 1" "1 / 2 + ?A"] by (simp add: round_eval)
  have t1: "total_protein ?meals = Finite (1351079888211149 / 2251799813685248)"
    by (simp only: total_folds p foldl.simps a1 a2 a3)
  have t2: "total_protein (rev ?meals) = Finite (5404319552844595 / 9007199254740992)"
    by (simp only: total_folds p' foldl.simps b1 b2 b3)
  have ne: "Finite (5404319552844595 / 9007199254740992)
      \<noteq> Finite (1351079888211149 / 2251799813685248)"
    by simp
  have m: "mset (rev ?meals) = mset ?meals"
    by (rule mset_rev)
  show ?thesis
    using m ne unfolding t1 t2 by (rule conjI)
qed

text \<open>
  Claim C8, amended. When the values of each field are whole numbers whose sum is at
  most \<open>2\<^sup>5\<^sup>3\<close>, the four totals of any permutation of the meals equal those of the
  original order.
\<close>

theorem totals_order_independent_whole_numbers:
  assumes "mset meals' = mset meals"
    and "map MealEntry.calories meals = map (\<lambda>n. Finite (of_nat n)) cs" "sum_list cs \<le> 2 ^ 53"
    and "map MealEntry.protein meals = map (\<lambda>n. Finite (of_nat n)) ps" "sum_list ps \<le> 2 ^ 53"
    and "map MealEntry.carbs meals = map (\<lambda>n. Finite (of_nat n)) bs" "sum_list bs \<le> 2 ^ 53"
    and "map MealEntry.fat meals = map (\<lambda>n. Finite (of_nat n)) fs" "sum_list fs \<le> 2 ^ 53"
  shows "total_calories meals' = total_calories meals
       \<and> total_protein meals' = total_protein meals
       \<and> total_carbs meals' = total_carbs meals
       \<and> total_fat meals' = total_fat meals"
proof -
  have m: "mset (map h meals') = mset (map h meals)" for h :: "MealEntry \<Rightarrow> number"
    using assms(1) by simp
  show ?thesis
    unfolding total_folds
    using js_sum_perm [OF m assms(2,3)] js_sum_perm [OF m assms(4,5)]
      js_sum_perm [OF m assms(6,7)] js_sum_perm [OF m assms(8,9)]
    by (simp only: simp_thms)
qed

theorem totals_order_independent_whole_numbers_witness:
  "mset [\<lparr>id = Finite 2, name = ustr ''AI Analyzed Meal'', calories = Finite 300,
         protein = Finite 12, carbs = Finite 40, fat = Finite 9, timestamp = 2\<rparr>,
       \<lparr>id = Finite 1, name = ustr ''AI Analyzed Meal'', calories = Finite 500,
         protein = Finite 30, carbs = Finite 45, fat = Finite 20, timestamp = 1\<rparr>]
     = mset [\<lparr>id = Finite 1, name = ustr ''AI Analyzed Meal'', calories = Finite 500,
         protein = Finite 30, carbs = Finite 45, fat = Finite 20, timestamp = 1\<rparr>,
       \<lparr>id = Finite 2, name = ustr ''AI Analyzed Meal'', calories = Finite 300,
         protein = Finite 12, carbs = Finite 40, fat = Finite 9, timestamp = 2\<rparr>]
   \<and> map MealEntry.calories [\<lparr>id = Finite 1, name = ustr ''AI Analyzed Meal'', calories = Finite 500,
         protein = Finite 30, carbs = Finite 45, fat = Finite 20, timestamp = 1\<rparr>,
       \<lparr>id = Finite 2, name = ustr ''AI Analyzed Meal'', calories = Finite 300,
         protein = Finite 12, carbs = Finite 40, fat = Finite 9, timestamp = 2\<rparr>] = map (\<lambda>n. Finite (of_nat n)) [500, 300]
   \<and> map MealEntry.protein [\<lparr>id = Finite 1, name = ustr ''AI Analyzed Meal'', calories = Finite 500,
         protein = Finite 30, carbs = Finite 45, fat = Finite 20, timestamp = 1\<rparr>,
       \<lparr>id = Finite 2, name = ustr ''AI Analyzed Meal'', calories = Finite 300,
         protein = Finite 12, carbs = Finite 40, fat = Finite 9, timestamp = 2\<rparr>] = map (\<lambda>n. Finite (of_nat n)) [30, 12]
   \<and> map MealEntry.carbs [\<lparr>id = Finite 1, name = ustr ''AI Analyzed Meal'', calories = Finite 500,
         protein = Finite 30, carbs = Finite 45, fat = Finite 20, timestamp = 1\<rparr>,
       \<lparr>id = Finite 2, name = ustr ''AI Analyzed Meal'', calories = Finite 300,
         protein = Finite 12, carbs = Finite 40, fat = Finite 9, timestamp = 2\<rparr>] = map (\<lambda>n. Finite (of_nat n)) [45, 40]
   \<and> map MealEntry.fat [\<lparr>id = Finite 1, name = ustr ''AI Analyzed Meal'', calories = Finite 500,
         protein = Finite 30, carbs = Finite 45, fat = Finite 20, timestamp = 1\<rparr>,
       \<lparr>id = Finite 2, name = ustr ''AI Analyzed Meal'', calories = Finite 300,
         protein = Finite 12, carbs = Finite 40, fat = Finite 9, timestamp = 2\<rparr>] = map (\<lambda>n. Finite (of_nat n)) [20, 9]
   \<and> sum_list [500, 300] \<le> (2::nat) ^ 53 \<and> sum_list [30, 12] \<le> (2::nat) ^ 53
   \<and> sum_list [45, 40] \<le> (2::nat) ^ 53 \<and> sum_list [20, 9] \<le> (2::nat) ^ 53
   \<and> total_calories [\<lparr>id = Finite 2, name = ustr ''AI Analyzed Meal'', calories = Finite 300,
         protein = Finite 12, carbs = Finite 40, fat = Finite 9, timestamp = 2\<rparr>,
       \<lparr>id = Finite 1, name = ustr ''AI Analyzed Meal'', calories = Finite 500,
         protein = Finite 30, carbs = Finite 45, fat = Finite 20, timestamp = 1\<rparr>] = total_calories [\<lparr>id = Finite 1, name = ustr ''AI Analyzed Meal'', calories = Finite 500,
         protein = Finite 30, carbs = Finite 45, fat = Finite 20, timestamp = 1\<rparr>,
       \<lparr>id = Finite 2, name = ustr ''AI Analyzed Meal'', calories = Finite 300,
         protein = Finite 12, carbs = Finite 40, fat = Finite 9, timestamp = 2\<rparr>]
   \<and> total_protein [\<lparr>id = Finite 2, name = ustr ''AI Analyzed Meal'', calories = Finite 300,
         protein = Finite 12, carbs = Finite 40, fat = Finite 9, timestamp = 2\<rparr>,
       \<lparr>id = Finite 1, name = ustr ''AI Analyzed Meal'', calories = Finite 500,
         protein = Finite 30, carbs = Finite 45, fat = Finite 20, timestamp = 1\<rparr>] = total_protein [\<lparr>id = Finite 1, name = ustr ''AI Analyzed Meal'', calories = Finite 500,
         protein = Finite 30, carbs = Finite 45, fat = Finite 20, timestamp = 1\<rparr>,
       \<lparr>id = Finite 2, name = ustr ''AI Analyzed Meal'', calories = Finite 300,
         protein = Finite 12, carbs = Finite 40, fat = Finite 9, timestamp = 2\<rparr>]
   \<and> total_carbs [\<lparr>id = Finite 2, name = ustr ''AI Analyzed Meal'', calories = Finite 300,
         protein = Finite 12, carbs = Finite 40, fat = Finite 9, timestamp = 2\<rparr>,
       \<lparr>id = Finite 1, name = ustr ''AI Analyzed Meal'', calories = Finite 500,
         protein = Finite 30, carbs = Finite 45, fat = Finite 20, timestamp = 1\<rparr>] = total_carbs [\<lparr>id = Finite 1, name = ustr ''AI Analyzed Meal'', calories = Finite 500,
         protein = Finite 30, carbs = Finite 45, fat = Finite 20, timestamp = 1\<rparr>,
       \<lparr>id = Finite 2, name = ustr ''AI Analyzed Meal'', calories = Finite 300,
         protein = Finite 12, carbs = Finite 40, fat = Finite 9, timestamp = 2\<rparr>]
   \<and> total_fat [\<lparr>id = Finite 2, name = ustr ''AI Analyzed Meal'', calories = Finite 300,
         protein = Finite 12, carbs = Finite 40, fat = Finite 9, timestamp = 2\<rparr>,
       \<lparr>id = Finite 1, name = ustr ''AI Analyzed Meal'', calories = Finite 500,
         protein = Finite 30, carbs = Finite 45, fat = Finite 20, timestamp = 1\<rparr>] = total_fat [\<lparr>id = Finite 1, name = ustr ''AI Analyzed Meal'', calories = Finite 500,
         protein = Finite 30, carbs = Finite 45, fat = Finite 20, timestamp = 1\<rparr>,
       \<lparr>id = Finite 2, name = ustr ''AI Analyzed Meal'', calories = Finite 300,
         protein = Finite 12, carbs = Finite 40, fat = Finite 9, timestamp = 2\<rparr>]"
proof -
  let ?a = "[\<lparr>id = Finite 1, name = ustr ''AI Analyzed Meal'', calories = Finite 500,
         protein = Finite 30, carbs = Finite 45, fat = Finite 20, timestamp = 1\<rparr>,
       \<lparr>id = Finite 2, name = ustr ''AI Analyzed Meal'', calories = Finite 300,
         protein = Finite 12, carbs = Finite 40, fat = Finite 9, timestamp = 2\<rparr>]"
  let ?b = "[\<lparr>id = Finite 2, name = ustr ''AI Analyzed Meal'', calories = Finite 300,
         protein = Finite 12, carbs = Finite 40, fat = Finite 9, timestamp = 2\<rparr>,
       \<lparr>id = Finite 1, name = ustr ''AI Analyzed Meal'', calories = Finite 500,
         protein = Finite 30, carbs = Finite 45, fat = Finite 20, timestamp = 1\<rparr>]"
  have m: "mset ?b = mset ?a"
    by (simp only: mset.simps add_mset_commute)
  have c: "map MealEntry.calories ?a = map (\<lambda>n. Finite (of_nat n)) [500, 300]"
    and p: "map MealEntry.protein ?a = map (\<lambda>n. Finite (of_nat n)) [30, 12]"
    and b: "map MealEntry.carbs ?a = map (\<lambda>n. Finite (of_nat n)) [45, 40]"
    and f: "map MealEntry.fat ?a = map (\<lambda>n. Finite (of_nat n)) [20, 9]"
    by simp_all
  have s: "sum_list [500, 300] \<le> (2::nat) ^ 53" "sum_list [30, 12] \<le> (2::nat) ^ 53"
    "sum_list [45, 40] \<le> (2::nat) ^ 53" "sum_list [20, 9] \<le> (2::nat) ^ 53"
    by simp_all
  note t = totals_order_independent_whole_numbers [OF m c s(1) p s(2) b s(3) f s(4)]
  from m c p b f s t show ?thesis
    by (intro conjI) (simp_all only:)
qed

end
